theory Spec2Isabelle
  imports Main "HOL-Library.Word" "HOL-Library.Sublist"
begin

unbundle bit_operations_syntax

section \<open>The mock SFTP server of andbank-notion (src/mock-sftp/server.ts)\<close>

text \<open>
  The development embeds the protocol-serving part of the repository: the path sandbox
  \<open>normalizePath\<close>, the host-key store \<open>ensureHostKey\<close>, the authentication
  callback, the per-session handle table with the handlers of the SFTP requests, and the
  module-level start-up state of \<open>startMockSftpServer\<close>.

  JavaScript strings are modelled as \<open>string\<close>, Buffers as lists of bytes, the two
  \<open>Map\<close>s of a session as partial functions, thrown exceptions as the left summand of
  a sum type, and the operating system's files as an explicit state that every handler
  receives and returns.
\<close>

subsection \<open>Node's \<open>path\<close> module (POSIX flavour)\<close>

text \<open>
  \<open>path.resolve\<close> and \<open>path.join\<close> are library functions of Node. They are
  modelled on the segments of a path: the string is cut at every \<open>/\<close>, empty segments
  and \<open>.\<close> are dropped, and \<open>..\<close> removes the segment before it. When the path is
  absolute (\<open>allowAboveRoot\<close> is false) a \<open>..\<close> at the top is dropped; otherwise it
  is kept.
\<close>

fun split_slash :: "string \<Rightarrow> string list" where
  "split_slash [] = [[]]"
| "split_slash (c # cs) =
     (if c = CHR ''/'' then [] # split_slash cs
      else (case split_slash cs of
              [] \<Rightarrow> [[c]]
            | s # ss \<Rightarrow> (c # s) # ss))"

fun join_slash :: "string list \<Rightarrow> string" where
  "join_slash [] = []"
| "join_slash [s] = s"
| "join_slash (s # t # ss) = s @ ''/'' @ join_slash (t # ss)"

text \<open>The second argument is the stack of segments kept so far, innermost first.\<close>

fun normalizeSegments :: "bool \<Rightarrow> string list \<Rightarrow> string list \<Rightarrow> string list" where
  "normalizeSegments allowAboveRoot acc [] = rev acc"
| "normalizeSegments allowAboveRoot acc (s # ss) =
     (if s = [] \<or> s = ''.'' then normalizeSegments allowAboveRoot acc ss
      else if s = ''..'' then
        (case acc of
           [] \<Rightarrow> normalizeSegments allowAboveRoot (if allowAboveRoot then [''..''] else []) ss
         | a # as \<Rightarrow>
             if a = ''..''
             then normalizeSegments allowAboveRoot (if allowAboveRoot then ''..'' # acc else acc) ss
             else normalizeSegments allowAboveRoot as ss)
      else normalizeSegments allowAboveRoot (s # acc) ss)"

definition normalizeString :: "string \<Rightarrow> bool \<Rightarrow> string" where
  "normalizeString p allowAboveRoot =
     join_slash (normalizeSegments allowAboveRoot [] (split_slash p))"

text \<open>
  \<open>path.resolve\<close> walks its arguments from the right, then the working directory of
  the process, and stops at the first absolute one.
\<close>

fun resolve_collect :: "string list \<Rightarrow> string \<Rightarrow> string \<times> bool" where
  "resolve_collect [] resolvedPath = (resolvedPath, False)"
| "resolve_collect (p # ps) resolvedPath =
     (if p = [] then resolve_collect ps resolvedPath
      else if hd p = CHR ''/'' then (p @ ''/'' @ resolvedPath, True)
      else resolve_collect ps (p @ ''/'' @ resolvedPath))"

definition path_resolve :: "string \<Rightarrow> string list \<Rightarrow> string" where
  "path_resolve cwd args =
     (case resolve_collect (rev args @ [cwd]) [] of
        (resolvedPath, resolvedAbsolute) \<Rightarrow>
          if resolvedAbsolute then ''/'' @ normalizeString resolvedPath False
          else (let r = normalizeString resolvedPath True in if r = [] then ''.'' else r))"

definition path_normalize :: "string \<Rightarrow> string" where
  "path_normalize p =
     (if p = [] then ''.''
      else
        (let isAbsolute = (hd p = CHR ''/'');
             trailingSeparator = (last p = CHR ''/'');
             q = normalizeString p (\<not> isAbsolute)
         in if q = [] then (if isAbsolute then ''/'' else if trailingSeparator then ''./'' else ''.'')
            else (if isAbsolute then ''/'' else []) @ q @ (if trailingSeparator then ''/'' else [])))"

definition path_join :: "string list \<Rightarrow> string" where
  "path_join args =
     (case filter (\<lambda>a. a \<noteq> []) args of
        [] \<Rightarrow> ''.''
      | parts \<Rightarrow> path_normalize (join_slash parts))"

subsection \<open>Errors\<close>

datatype error =
    PathEscape          \<comment> \<open>\<open>new Error('Path escapes root')\<close>\<close>
  | FsError             \<comment> \<open>a rejected \<open>fs\<close> call (ENOENT, EACCES, EBADF, ...)\<close>
  | RangeError          \<comment> \<open>a value out of range (\<open>writeUInt32BE\<close>, \<open>fs.read\<close>)\<close>
  | ArgError            \<comment> \<open>an invalid argument value (\<open>fs.read\<close> with an empty buffer)\<close>
  | KeyGenError         \<comment> \<open>\<open>generateKeyPairSync\<close> threw\<close>
  | ServerError         \<comment> \<open>\<open>new Server\<close> or \<open>server.listen\<close> threw\<close>

subsection \<open>The path sandbox\<close>

text \<open>
  \<open>normalizePath(requestPath, rootDir)\<close>. The working directory of the process, which
  \<open>path.resolve\<close> reads when \<open>rootDir\<close> is relative, is the extra first argument.
  \<open>startsWith\<close> is the prefix test on strings.
\<close>

definition normalizePath :: "string \<Rightarrow> string \<Rightarrow> string \<Rightarrow> error + string" where
  "normalizePath cwd requestPath rootDir =
     (let cleanPath = (if requestPath = [] \<or> requestPath = ''.'' then ''/'' else requestPath);
          cleanPath = (if \<not> prefix ''/'' cleanPath then ''/'' @ cleanPath else cleanPath);
          resolved = path_resolve cwd [rootDir, ''.'' @ cleanPath]
      in if \<not> prefix rootDir resolved then Inl PathEscape else Inr resolved)"

text \<open>
  A path lies within the directory \<open>root\<close> when its segments start with the segments
  of \<open>root\<close>: it is \<open>root\<close> itself or a path below it.
\<close>

definition within_root :: "string \<Rightarrow> string \<Rightarrow> bool" where
  "within_root root p =
     prefix (filter (\<lambda>s. s \<noteq> []) (split_slash root)) (filter (\<lambda>s. s \<noteq> []) (split_slash p))"

subsection \<open>The operating system's files\<close>

text \<open>
  The handlers call \<open>fs\<close> and \<open>fs/promises\<close>. The files are modelled as a Unix file
  table: path names point to inode numbers, inodes hold the metadata and the content,
  and open descriptors point to inode numbers. Symbolic links are not modelled, so
  \<open>lstat\<close> is \<open>stat\<close>. Every call that Node rejects returns \<open>Inl FsError\<close>.
\<close>

type_synonym byte = "8 word"

datatype content = FileData "byte list" | DirEntries "string list"

record stats =
  st_mode :: nat
  st_uid :: "nat option"
  st_gid :: "nat option"
  st_size :: nat
  st_atimeMs :: int
  st_mtimeMs :: int
  st_isDirectory :: bool
  st_mtimeDateString :: string   \<comment> \<open>the text of \<open>stat.mtime.toDateString()\<close>\<close>

record inode =
  i_stats :: stats
  i_content :: content

record os =
  cwd :: string
  names :: "string \<rightharpoonup> nat"
  inodes :: "nat \<rightharpoonup> inode"
  fds :: "(nat \<times> nat) list"

definition lookup_inode :: "os \<Rightarrow> string \<Rightarrow> inode option" where
  "lookup_inode s p = (case names s p of None \<Rightarrow> None | Some i \<Rightarrow> inodes s i)"

definition fs_stat :: "os \<Rightarrow> string \<Rightarrow> error + stats" where
  "fs_stat s p = (case lookup_inode s p of None \<Rightarrow> Inl FsError | Some n \<Rightarrow> Inr (i_stats n))"

definition fs_lstat :: "os \<Rightarrow> string \<Rightarrow> error + stats" where
  "fs_lstat s p = fs_stat s p"

definition fs_readdir :: "os \<Rightarrow> string \<Rightarrow> error + string list" where
  "fs_readdir s p =
     (case lookup_inode s p of
        None \<Rightarrow> Inl FsError
      | Some n \<Rightarrow> (case i_content n of DirEntries es \<Rightarrow> Inr es | FileData _ \<Rightarrow> Inl FsError))"

text \<open>The lowest descriptor number that is not open.\<close>

definition free_fd :: "(nat \<times> nat) list \<Rightarrow> nat" where
  "free_fd tab =
     (case find (\<lambda>n. n \<notin> set (map fst tab)) [0 ..< Suc (length tab)] of
        Some n \<Rightarrow> n
      | None \<Rightarrow> Suc (length tab))"

text \<open>
  \<open>fsp.open(resolved, 'r')\<close>: the path must exist; a new descriptor is opened. The
  handler keeps the number of the descriptor and drops the \<open>FileHandle\<close> object, so
  Node may close the descriptor when the object is collected. That is a change of the
  descriptor table between two requests: a request is served with the files as they are
  at that moment, which need not be the files that the previous request left.
\<close>

definition fs_open :: "os \<Rightarrow> string \<Rightarrow> (error + nat) \<times> os" where
  "fs_open s p =
     (case names s p of
        None \<Rightarrow> (Inl FsError, s)
      | Some i \<Rightarrow>
          (case inodes s i of
             None \<Rightarrow> (Inl FsError, s)
           | Some _ \<Rightarrow> (let fd = free_fd (fds s) in (Inr fd, s\<lparr>fds := (fd, i) # fds s\<rparr>))))"

text \<open>The bytes behind an open descriptor; reading a directory is an error.\<close>

definition fd_data :: "os \<Rightarrow> nat \<Rightarrow> error + byte list" where
  "fd_data s fd =
     (case map_of (fds s) fd of
        None \<Rightarrow> Inl FsError
      | Some i \<Rightarrow>
          (case inodes s i of
             None \<Rightarrow> Inl FsError
           | Some n \<Rightarrow> (case i_content n of FileData bs \<Rightarrow> Inr bs | DirEntries _ \<Rightarrow> Inl FsError)))"

text \<open>\<open>length |= 0\<close>: the value as a signed 32-bit integer.\<close>

definition to_int32 :: "nat \<Rightarrow> int" where
  "to_int32 n =
     (let m = n mod 4294967296 in if m < 2147483648 then int m else int m - 4294967296)"

text \<open>
  \<open>fs.read(fd, buffer, 0, length, position, cb)\<close> with a buffer of \<open>byteLength\<close>
  bytes. Node first coerces \<open>length\<close> to a signed 32-bit integer. A length of 0 calls
  back with 0 bytes at once, without looking at the descriptor. Then the arguments are
  validated: an empty buffer, a negative length, a length beyond the buffer and a
  position that is not a safe integer (above \<open>2^53 - 1\<close>) make \<open>fs.read\<close> throw.
  Otherwise up to \<open>length\<close> bytes from \<open>position\<close> are read and the callback gets
  the error or the part of the buffer that was filled, whose length is \<open>bytesRead\<close>.
  The result is \<open>Inl\<close> for an exception thrown by the call itself and \<open>Inr\<close> for
  what the callback receives.
\<close>

definition fs_read :: "os \<Rightarrow> nat \<Rightarrow> nat \<Rightarrow> nat \<Rightarrow> nat \<Rightarrow> error + (error + byte list)" where
  "fs_read s fd byteLength len position =
     (let n = to_int32 len in
      if n = 0 then Inr (Inr [])
      else if byteLength = 0 then Inl ArgError
      else if n < 0 \<or> int byteLength < n then Inl RangeError
      else if 9007199254740991 < position then Inl RangeError
      else
        (case fd_data s fd of
           Inl e \<Rightarrow> Inr (Inl e)
         | Inr bs \<Rightarrow> Inr (Inr (take (nat n) (drop position bs)))))"

definition fs_close :: "os \<Rightarrow> nat \<Rightarrow> (error + unit) \<times> os" where
  "fs_close s fd =
     (if fd \<in> set (map fst (fds s))
      then (Inr (), s\<lparr>fds := filter (\<lambda>e. fst e \<noteq> fd) (fds s)\<rparr>)
      else (Inl FsError, s))"

text \<open>The content of the regular file at a path, if there is one.\<close>

definition file_content :: "os \<Rightarrow> string \<Rightarrow> byte list option" where
  "file_content s p =
     (case lookup_inode s p of
        None \<Rightarrow> None
      | Some n \<Rightarrow> (case i_content n of FileData bs \<Rightarrow> Some bs | DirEntries _ \<Rightarrow> None))"

subsection \<open>Configuration, replies and requests\<close>

record MockSftpConfig =
  port :: nat
  host :: string
  username :: string
  password :: string
  rootDir :: string
  keyPath :: string

text \<open>The members of \<open>STATUS_CODE\<close> and \<open>OPEN_MODE\<close> of ssh2 that the server uses.\<close>

datatype status_code = OK | EOF | PERMISSION_DENIED | FAILURE

definition OPEN_MODE_READ :: "32 word" where "OPEN_MODE_READ = 1"
definition OPEN_MODE_WRITE :: "32 word" where "OPEN_MODE_WRITE = 2"

record attrs =
  mode :: nat
  uid :: nat
  gid :: nat
  size_bytes :: nat
  atime :: int
  mtime :: int

record name_entry =
  filename :: string
  longname :: string
  entry_attrs :: "attrs option"   \<comment> \<open>\<open>None\<close> for the empty object \<open>{}\<close>\<close>

text \<open>
  What a handler sends for a request. \<open>Uncaught\<close> stands for a handler that threw
  outside its \<open>try\<close> block: no reply is sent for the request.
\<close>

datatype reply =
    Status status_code
  | Handle "byte list"
  | Data "byte list"
  | Name "name_entry list"
  | Attrs attrs
  | Uncaught error

datatype request =
    REALPATH string
  | STAT string
  | LSTAT string
  | OPENDIR string
  | READDIR "byte list"
  | OPEN string "32 word"
  | READ "byte list" nat nat
  | CLOSE "byte list"

text \<open>\<open>Math.floor(ms / 1000)\<close> is \<open>div\<close> on integers, which rounds down.\<close>

definition attrsFromStat :: "stats \<Rightarrow> attrs" where
  "attrsFromStat st =
     \<lparr>mode = st_mode st,
      uid = (case st_uid st of None \<Rightarrow> 0 | Some u \<Rightarrow> u),
      gid = (case st_gid st of None \<Rightarrow> 0 | Some g \<Rightarrow> g),
      size_bytes = st_size st,
      atime = st_atimeMs st div 1000,
      mtime = st_mtimeMs st div 1000\<rparr>"

fun decimal :: "nat \<Rightarrow> string" where
  "decimal n =
     (if n < 10 then [''0123456789'' ! n]
      else decimal (n div 10) @ [''0123456789'' ! (n mod 10)])"

subsection \<open>The handle table of one session\<close>

record dirInfo =
  files :: "string list"
  index :: nat
  dirPath :: string

record session =
  openFiles :: "string \<rightharpoonup> nat"
  openDirs :: "string \<rightharpoonup> dirInfo"
  handleCount :: nat

definition init_session :: session where
  "init_session = \<lparr>openFiles = Map.empty, openDirs = Map.empty, handleCount = 0\<rparr>"

text \<open>
  \<open>handleCount\<close> is a JavaScript number: \<open>++\<close> is exact below \<open>2^53\<close> and has no
  effect from there on.
\<close>

definition js_incr :: "nat \<Rightarrow> nat" where
  "js_incr n = (if n < 2 ^ 53 then n + 1 else n)"

definition writeUInt32BE :: "nat \<Rightarrow> byte list" where
  "writeUInt32BE v =
     [of_nat (v div 16777216), of_nat (v div 65536), of_nat (v div 256), of_nat v]"

definition readUInt32BE :: "byte list \<Rightarrow> nat" where
  "readUInt32BE h = foldl (\<lambda>acc b. acc * 256 + unat b) 0 h"

text \<open>
  \<open>createHandle\<close>: the counter is incremented first; \<open>writeUInt32BE\<close> then throws a
  range error for a value above \<open>2^32 - 1\<close>.
\<close>

definition createHandle :: "session \<Rightarrow> (error + byte list) \<times> session" where
  "createHandle st =
     (let v = handleCount st;
          st' = st\<lparr>handleCount := js_incr v\<rparr>
      in if v \<le> 4294967295 then (Inr (writeUInt32BE v), st') else (Inl RangeError, st'))"

definition hexDigit :: "nat \<Rightarrow> char" where
  "hexDigit n = ''0123456789abcdef'' ! n"

text \<open>\<open>handleKey\<close>: \<open>handle.toString('hex')\<close>.\<close>

definition handleKey :: "byte list \<Rightarrow> string" where
  "handleKey h = concat (map (\<lambda>b. [hexDigit (unat b div 16), hexDigit (unat b mod 16)]) h)"

subsection \<open>The request handlers\<close>

text \<open>
  Each handler takes the configuration, the files as they are when the request is
  served, and the session; it returns the reply sent for the request, the files and the
  session afterwards. A handler runs as one step: the interleaving of two requests at an
  \<open>await\<close> is not modelled.
\<close>

type_synonym outcome = "reply \<times> os \<times> session"

definition REALPATH_handler :: "os \<Rightarrow> session \<Rightarrow> string \<Rightarrow> outcome" where
  "REALPATH_handler s st givenPath =
     (Name [\<lparr>filename = ''/'', longname = ''/'', entry_attrs = None\<rparr>], s, st)"

definition STAT_handler :: "MockSftpConfig \<Rightarrow> os \<Rightarrow> session \<Rightarrow> string \<Rightarrow> outcome" where
  "STAT_handler config s st pathname =
     (case normalizePath (cwd s) pathname (rootDir config) of
        Inl e \<Rightarrow> (Status FAILURE, s, st)
      | Inr resolved \<Rightarrow>
          (case fs_stat s resolved of
             Inl e \<Rightarrow> (Status FAILURE, s, st)
           | Inr stat \<Rightarrow> (Attrs (attrsFromStat stat), s, st)))"

definition LSTAT_handler :: "MockSftpConfig \<Rightarrow> os \<Rightarrow> session \<Rightarrow> string \<Rightarrow> outcome" where
  "LSTAT_handler config s st pathname =
     (case normalizePath (cwd s) pathname (rootDir config) of
        Inl e \<Rightarrow> (Status FAILURE, s, st)
      | Inr resolved \<Rightarrow>
          (case fs_lstat s resolved of
             Inl e \<Rightarrow> (Status FAILURE, s, st)
           | Inr stat \<Rightarrow> (Attrs (attrsFromStat stat), s, st)))"

definition OPENDIR_handler :: "MockSftpConfig \<Rightarrow> os \<Rightarrow> session \<Rightarrow> string \<Rightarrow> outcome" where
  "OPENDIR_handler config s st pathname =
     (case normalizePath (cwd s) pathname (rootDir config) of
        Inl e \<Rightarrow> (Status FAILURE, s, st)
      | Inr resolved \<Rightarrow>
          (case fs_readdir s resolved of
             Inl e \<Rightarrow> (Status FAILURE, s, st)
           | Inr listing \<Rightarrow>
               (case createHandle st of
                  (Inl e, st') \<Rightarrow> (Status FAILURE, s, st')
                | (Inr handle, st') \<Rightarrow>
                    (Handle handle, s,
                     st'\<lparr>openDirs := (openDirs st')(handleKey handle \<mapsto>
                            \<lparr>files = listing, index = 0, dirPath = resolved\<rparr>)\<rparr>))))"

definition longname_of :: "stats \<Rightarrow> string \<Rightarrow> string" where
  "longname_of stat entry =
     (if st_isDirectory stat then ''d'' else ''-'') @ ''rwxr-xr-x 1 user group ''
       @ decimal (st_size stat) @ '' '' @ st_mtimeDateString stat @ '' '' @ entry"

definition READDIR_handler :: "os \<Rightarrow> session \<Rightarrow> byte list \<Rightarrow> outcome" where
  "READDIR_handler s st handle =
     (let key = handleKey handle in
      case openDirs st key of
        None \<Rightarrow> (Status FAILURE, s, st)
      | Some dirInfo \<Rightarrow>
          if index dirInfo \<ge> length (files dirInfo) then (Status EOF, s, st)
          else
            (let entry = files dirInfo ! index dirInfo;
                 st' = st\<lparr>openDirs := (openDirs st)(key \<mapsto> dirInfo\<lparr>index := js_incr (index dirInfo)\<rparr>)\<rparr>;
                 fullPath = path_join [dirPath dirInfo, entry]
             in case fs_stat s fullPath of
                  Inr stat \<Rightarrow>
                    (Name [\<lparr>filename = entry, longname = longname_of stat entry,
                            entry_attrs = Some (attrsFromStat stat)\<rparr>], s, st')
                | Inl e \<Rightarrow> (Status FAILURE, s, st')))"

definition OPEN_handler :: "MockSftpConfig \<Rightarrow> os \<Rightarrow> session \<Rightarrow> string \<Rightarrow> 32 word \<Rightarrow> outcome" where
  "OPEN_handler config s st fname flags =
     (if flags AND OPEN_MODE_READ = 0 then (Status PERMISSION_DENIED, s, st)
      else
        (case normalizePath (cwd s) fname (rootDir config) of
           Inl e \<Rightarrow> (Status FAILURE, s, st)
         | Inr resolved \<Rightarrow>
             (case fs_open s resolved of
                (Inl e, s') \<Rightarrow> (Status FAILURE, s', st)
              | (Inr fd, s') \<Rightarrow>
                  (case createHandle st of
                     (Inl e, st') \<Rightarrow> (Status FAILURE, s', st')
                   | (Inr handle, st') \<Rightarrow>
                       (Handle handle, s',
                        st'\<lparr>openFiles := (openFiles st')(handleKey handle \<mapsto> fd)\<rparr>)))))"

text \<open>
  \<open>READ\<close>: the buffer is \<open>Buffer.alloc(length)\<close>, so its size is the length of the
  request. The handler has no \<open>try\<close> block: what \<open>fs.read\<close> throws is not caught.
  For a length of \<open>2^31\<close> or more \<open>Buffer.alloc\<close> or, after it, \<open>fs.read\<close>
  throws a range error; both are the same outcome here.
\<close>

definition READ_handler :: "os \<Rightarrow> session \<Rightarrow> byte list \<Rightarrow> nat \<Rightarrow> nat \<Rightarrow> outcome" where
  "READ_handler s st handle offset len =
     (case openFiles st (handleKey handle) of
        None \<Rightarrow> (Status FAILURE, s, st)
      | Some fd \<Rightarrow>
          (case fs_read s fd len len offset of
             Inl thrown \<Rightarrow> (Uncaught thrown, s, st)
           | Inr (Inl err) \<Rightarrow> (Status FAILURE, s, st)
           | Inr (Inr bytes) \<Rightarrow>
               if length bytes = 0 then (Status EOF, s, st) else (Data bytes, s, st)))"

text \<open>
  \<open>CLOSE\<close>: for a file handle the entry is deleted first and the descriptor closed
  after it; the reply is the outcome of \<open>fs.close\<close>.
\<close>

definition CLOSE_handler :: "os \<Rightarrow> session \<Rightarrow> byte list \<Rightarrow> outcome" where
  "CLOSE_handler s st handle =
     (let key = handleKey handle in
      case openFiles st key of
        Some fd \<Rightarrow>
          (let st' = st\<lparr>openFiles := (openFiles st)(key := None)\<rparr> in
           case fs_close s fd of
             (Inl err, s') \<Rightarrow> (Status FAILURE, s', st')
           | (Inr _, s') \<Rightarrow> (Status OK, s', st'))
      | None \<Rightarrow>
          (case openDirs st key of
             Some _ \<Rightarrow> (Status OK, s, st\<lparr>openDirs := (openDirs st)(key := None)\<rparr>)
           | None \<Rightarrow> (Status FAILURE, s, st)))"

fun dispatch :: "MockSftpConfig \<Rightarrow> os \<Rightarrow> session \<Rightarrow> request \<Rightarrow> outcome" where
  "dispatch config s st (REALPATH p) = REALPATH_handler s st p"
| "dispatch config s st (STAT p) = STAT_handler config s st p"
| "dispatch config s st (LSTAT p) = LSTAT_handler config s st p"
| "dispatch config s st (OPENDIR p) = OPENDIR_handler config s st p"
| "dispatch config s st (READDIR h) = READDIR_handler s st h"
| "dispatch config s st (OPEN p flags) = OPEN_handler config s st p flags"
| "dispatch config s st (READ h offset len) = READ_handler s st h offset len"
| "dispatch config s st (CLOSE h) = CLOSE_handler s st h"

text \<open>
  A session serves a sequence of requests. Other processes may change the files between
  two requests, so every request comes with the files as they are when it is served.
  \<open>serve\<close> returns the replies in order and the session at the end.
\<close>

fun serve :: "MockSftpConfig \<Rightarrow> session \<Rightarrow> (os \<times> request) list \<Rightarrow> reply list \<times> session" where
  "serve config st [] = ([], st)"
| "serve config st ((s, req) # rest) =
     (case dispatch config s st req of
        (r, s', st') \<Rightarrow> (case serve config st' rest of (rs, st'') \<Rightarrow> (r # rs, st'')))"

text \<open>The handles that a list of replies hands out, in order.\<close>

fun issued :: "reply list \<Rightarrow> byte list list" where
  "issued [] = []"
| "issued (Handle h # rs) = h # issued rs"
| "issued (r # rs) = issued rs"

text \<open>\<open>READDIR\<close> called once for each state of the files in the list.\<close>

fun listNext_calls :: "session \<Rightarrow> byte list \<Rightarrow> os list \<Rightarrow> reply list" where
  "listNext_calls st h [] = []"
| "listNext_calls st h (s # ss) =
     (case READDIR_handler s st h of (r, s', st') \<Rightarrow> r # listNext_calls st' h ss)"

text \<open>The names that a list of replies carries, in order.\<close>

fun listed :: "reply list \<Rightarrow> string list" where
  "listed [] = []"
| "listed (Name es # rs) = map filename es @ listed rs"
| "listed (r # rs) = listed rs"

subsection \<open>Reading a file in chunks\<close>


subsection \<open>Authentication\<close>

record auth_context =
  auth_method :: string
  auth_username :: string
  auth_password :: "string option"   \<comment> \<open>\<open>None\<close> when \<open>ctx.password\<close> is undefined\<close>

datatype auth_decision = Accept | Reject

definition authentication :: "MockSftpConfig \<Rightarrow> auth_context \<Rightarrow> auth_decision" where
  "authentication config ctx =
     (if auth_method ctx = ''password'' \<and> auth_username ctx = username config
         \<and> auth_password ctx = Some (password config)
      then Accept else Reject)"

subsection \<open>The host key\<close>

text \<open>
  \<open>ensureHostKey\<close> makes four calls outside the program. Their outcomes are the
  input of the model: creating the directory of the key, reading the key file,
  generating a key pair, and writing the new private key.
\<close>

record key_env =
  mkdir_keydir :: "error + unit"
  readFile_key :: "error + byte list"
  generateKeyPairSync :: "error + byte list"
  writeFile_key :: "error + unit"

definition ensureHostKey :: "'a key_env_scheme \<Rightarrow> error + byte list" where
  "ensureHostKey env =
     (case mkdir_keydir env of
        Inl e \<Rightarrow> Inl e
      | Inr _ \<Rightarrow>
          (case readFile_key env of
             Inr key \<Rightarrow> Inr key
           | Inl err \<Rightarrow>
               (case generateKeyPairSync env of
                  Inl e \<Rightarrow> Inl e
                | Inr privateKey \<Rightarrow>
                    (case writeFile_key env of
                       Inl e \<Rightarrow> Inl e
                     | Inr _ \<Rightarrow> Inr privateKey))))"

subsection \<open>Starting the server\<close>

text \<open>
  The body of the start promise: the host key, the root directory, the \<open>Server\<close>
  object and the call of \<open>listen\<close>. Its result is the host key of the server whose
  \<open>listen\<close> has been called, or the error thrown on the way.
\<close>

record start_env = key_env +
  mkdir_root :: "error + unit"
  new_Server :: "error + unit"
  listen_call :: "error + unit"

definition start_body :: "start_env \<Rightarrow> error + byte list" where
  "start_body env =
     (case ensureHostKey env of
        Inl e \<Rightarrow> Inl e
      | Inr hostKey \<Rightarrow>
          (case mkdir_root env of
             Inl e \<Rightarrow> Inl e
           | Inr _ \<Rightarrow>
               (case new_Server env of
                  Inl e \<Rightarrow> Inl e
                | Inr _ \<Rightarrow>
                    (case listen_call env of
                       Inl e \<Rightarrow> Inl e
                     | Inr _ \<Rightarrow> Inr hostKey))))"

record config_overrides =
  o_port :: "nat option"
  o_host :: "string option"
  o_username :: "string option"
  o_password :: "string option"
  o_rootDir :: "string option"
  o_keyPath :: "string option"

text \<open>\<open>{ ...defaultConfig, ...configOverrides }\<close>\<close>

definition merge_config :: "MockSftpConfig \<Rightarrow> config_overrides \<Rightarrow> MockSftpConfig" where
  "merge_config d ov =
     \<lparr>port = (case o_port ov of None \<Rightarrow> port d | Some v \<Rightarrow> v),
      host = (case o_host ov of None \<Rightarrow> host d | Some v \<Rightarrow> v),
      username = (case o_username ov of None \<Rightarrow> username d | Some v \<Rightarrow> v),
      password = (case o_password ov of None \<Rightarrow> password d | Some v \<Rightarrow> v),
      rootDir = (case o_rootDir ov of None \<Rightarrow> rootDir d | Some v \<Rightarrow> v),
      keyPath = (case o_keyPath ov of None \<Rightarrow> keyPath d | Some v \<Rightarrow> v)\<rparr>"

text \<open>
  The module keeps \<open>serverInstance\<close> and \<open>startingPromise\<close>. Promises and servers
  are numbered in the order of their creation; a server enters the table when its
  \<open>listen\<close> has been called, so the length of the table counts the bind attempts.
\<close>

datatype promise_state = Pending MockSftpConfig | Fulfilled nat | Rejected error

datatype listen_state = Binding | Bound | BindFailed | ServerClosed

record server_rec =
  hostKey :: "byte list"
  server_config :: MockSftpConfig
  listen_status :: listen_state

record lifecycle =
  serverInstance :: "nat option"
  startingPromise :: "nat option"
  promises :: "promise_state list"
  servers :: "server_rec list"

definition init_lifecycle :: lifecycle where
  "init_lifecycle = \<lparr>serverInstance = None, startingPromise = None, promises = [], servers = []\<rparr>"

datatype call_result = ReturnsInstance nat | ReturnsPromise nat

text \<open>The synchronous part of a call of \<open>startMockSftpServer\<close>.\<close>

definition startMockSftpServer ::
    "MockSftpConfig \<Rightarrow> lifecycle \<Rightarrow> config_overrides \<Rightarrow> call_result \<times> lifecycle" where
  "startMockSftpServer defaultConfig m configOverrides =
     (case serverInstance m of
        Some srv \<Rightarrow> (ReturnsInstance srv, m)
      | None \<Rightarrow>
          (case startingPromise m of
             Some p \<Rightarrow> (ReturnsPromise p, m)
           | None \<Rightarrow>
               (let config = merge_config defaultConfig configOverrides;
                    p = length (promises m)
                in (ReturnsPromise p,
                    m\<lparr>promises := promises m @ [Pending config], startingPromise := Some p\<rparr>))))"

text \<open>
  The body of promise \<open>p\<close> runs to its end. An error rejects the promise and the
  \<open>catch\<close> callback clears \<open>startingPromise\<close>; otherwise the promise is fulfilled
  with the new server.
\<close>

definition body_done :: "lifecycle \<Rightarrow> nat \<Rightarrow> start_env \<Rightarrow> lifecycle" where
  "body_done m p env =
     (if p < length (promises m) then
        (case promises m ! p of
           Pending config \<Rightarrow>
             (case start_body env of
                Inl e \<Rightarrow> m\<lparr>promises := (promises m)[p := Rejected e], startingPromise := None\<rparr>
              | Inr key \<Rightarrow>
                  m\<lparr>promises := (promises m)[p := Fulfilled (length (servers m))],
                    servers := servers m @
                      [\<lparr>hostKey = key, server_config = config, listen_status = Binding\<rparr>]\<rparr>)
         | _ \<Rightarrow> m)
      else m)"

text \<open>The callback of \<open>listen\<close>, and the \<open>error\<close> and \<open>close\<close> events of a server.\<close>

definition on_listening :: "lifecycle \<Rightarrow> nat \<Rightarrow> lifecycle" where
  "on_listening m srv =
     (if srv < length (servers m) \<and> listen_status (servers m ! srv) = Binding
      then m\<lparr>servers := (servers m)[srv := (servers m ! srv)\<lparr>listen_status := Bound\<rparr>],
             serverInstance := Some srv\<rparr>
      else m)"

definition on_error :: "lifecycle \<Rightarrow> nat \<Rightarrow> lifecycle" where
  "on_error m srv =
     (if srv < length (servers m) \<and> listen_status (servers m ! srv) = Binding
      then m\<lparr>servers := (servers m)[srv := (servers m ! srv)\<lparr>listen_status := BindFailed\<rparr>]\<rparr>
      else m)"

definition on_close :: "lifecycle \<Rightarrow> nat \<Rightarrow> lifecycle" where
  "on_close m srv =
     (if srv < length (servers m) \<and> listen_status (servers m ! srv) \<noteq> ServerClosed
      then m\<lparr>servers := (servers m)[srv := (servers m ! srv)\<lparr>listen_status := ServerClosed\<rparr>],
             serverInstance := None, startingPromise := None\<rparr>
      else m)"

datatype event =
    Call config_overrides
  | BodyDone nat start_env
  | Listening nat
  | ListenError nat
  | Closed nat

fun is_Closed :: "event \<Rightarrow> bool" where
  "is_Closed (Closed srv) = True"
| "is_Closed e = False"

text \<open>The events in order; the result of every call is collected.\<close>

fun run_events :: "MockSftpConfig \<Rightarrow> lifecycle \<Rightarrow> event list \<Rightarrow> call_result list \<times> lifecycle" where
  "run_events d m [] = ([], m)"
| "run_events d m (Call ov # es) =
     (case startMockSftpServer d m ov of
        (r, m') \<Rightarrow> (case run_events d m' es of (rs, m'') \<Rightarrow> (r # rs, m'')))"
| "run_events d m (BodyDone p env # es) = run_events d (body_done m p env) es"
| "run_events d m (Listening srv # es) = run_events d (on_listening m srv) es"
| "run_events d m (ListenError srv # es) = run_events d (on_error m srv) es"
| "run_events d m (Closed srv # es) = run_events d (on_close m srv) es"

text \<open>The server that the result of a call stands for, once it is known.\<close>

definition resolved :: "lifecycle \<Rightarrow> call_result \<Rightarrow> nat option" where
  "resolved m r =
     (case r of
        ReturnsInstance srv \<Rightarrow> Some srv
      | ReturnsPromise p \<Rightarrow>
          (if p < length (promises m)
           then (case promises m ! p of Fulfilled srv \<Rightarrow> Some srv | _ \<Rightarrow> None)
           else None))"

definition bound_servers :: "lifecycle \<Rightarrow> nat list" where
  "bound_servers m = filter (\<lambda>i. listen_status (servers m ! i) = Bound) [0 ..< length (servers m)]"

subsection \<open>A small installation\<close>

text \<open>
  A configuration and a file system used at the concrete inputs below: the root
  directory \<open>/app/data\<close> holds the file \<open>loans.csv\<close> of five bytes.
\<close>

definition demo_config :: MockSftpConfig where
  "demo_config = \<lparr>port = 2222, host = ''0.0.0.0'', username = ''andbank'',
     password = ''sftp-test'', rootDir = ''/app/data'', keyPath = ''/app/.mock-sftp/host_rsa_key''\<rparr>"

definition demo_stats :: "bool \<Rightarrow> nat \<Rightarrow> stats" where
  "demo_stats d n = \<lparr>st_mode = 420, st_uid = Some 1000, st_gid = Some 1000, st_size = n,
     st_atimeMs = 1700000000123, st_mtimeMs = 1700000000123, st_isDirectory = d,
     st_mtimeDateString = ''Tue Nov 14 2023''\<rparr>"

definition demo_os :: os where
  "demo_os = \<lparr>cwd = ''/app'',
     names = [''/app/data'' \<mapsto> 1, ''/app/data/loans.csv'' \<mapsto> 2],
     inodes = [1 \<mapsto> \<lparr>i_stats = demo_stats True 4096, i_content = DirEntries [''loans.csv'']\<rparr>,
               2 \<mapsto> \<lparr>i_stats = demo_stats False 5, i_content = FileData [104, 101, 108, 108, 111]\<rparr>],
     fds = []\<rparr>"

definition no_overrides :: config_overrides where
  "no_overrides = \<lparr>o_port = None, o_host = None, o_username = None, o_password = None,
     o_rootDir = None, o_keyPath = None\<rparr>"

text \<open>
  The outcomes of a start in which the key file cannot be read, a new key is generated
  and written, and everything after it succeeds.
\<close>

definition demo_unreadable_env :: start_env where
  "demo_unreadable_env = \<lparr>mkdir_keydir = Inr (), readFile_key = Inl FsError,
     generateKeyPairSync = Inr [1, 2, 3], writeFile_key = Inr (),
     mkdir_root = Inr (), new_Server = Inr (), listen_call = Inr ()\<rparr>"

text \<open>The module after the first call of \<open>startMockSftpServer\<close>.\<close>

definition demo_starting :: lifecycle where
  "demo_starting = snd (startMockSftpServer demo_config init_lifecycle no_overrides)"

text \<open>The files and the session after \<open>/loans.csv\<close> has been opened for reading.\<close>

definition demo_opened :: "os \<times> session" where
  "demo_opened = snd (OPEN_handler demo_config demo_os init_session ''/loans.csv'' 1)"

text \<open>
  The reply expected from the \<open>i\<close>-th call of \<open>READDIR\<close> on a directory handle whose
  listing \<open>fs\<close> was taken from the directory \<open>d\<close>, when the call is served with the
  files \<open>s\<close>.
\<close>

definition listing_reply :: "string \<Rightarrow> string list \<Rightarrow> nat \<times> os \<Rightarrow> reply" where
  "listing_reply d fs = (\<lambda>(i, s).
     if i < length fs then
       (case fs_stat s (path_join [d, fs ! i]) of
          Inr stat \<Rightarrow> Name [\<lparr>filename = fs ! i, longname = longname_of stat (fs ! i),
                            entry_attrs = Some (attrsFromStat stat)\<rparr>]
        | Inl e \<Rightarrow> Status FAILURE)
     else Status EOF)"

text \<open>The installation after \<open>loans.csv\<close> has been removed.\<close>

definition demo_os_removed :: os where
  "demo_os_removed = demo_os\<lparr>names := (names demo_os)(''/app/data/loans.csv'' := None)\<rparr>"

text \<open>The session after the root directory has been opened for listing.\<close>

definition demo_listing :: session where
  "demo_listing = snd (snd (OPENDIR_handler demo_config demo_os init_session ''/''))"

subsection \<open>The invariant of a session\<close>

text \<open>The key of the handle written for the counter value \<open>v\<close>.\<close>

definition key_of :: "nat \<Rightarrow> string" where
  "key_of v = handleKey (writeUInt32BE v)"

text \<open>The key belongs to a counter value that has been used already.\<close>

definition known_key :: "nat \<Rightarrow> string \<Rightarrow> bool" where
  "known_key n k \<longleftrightarrow> (\<exists>v. v < n \<and> v < 4294967296 \<and> k = key_of v)"

text \<open>
  Every key in the two tables belongs to a counter value below the counter, and no key
  is in both tables.
\<close>

definition session_inv :: "session \<Rightarrow> bool" where
  "session_inv st \<longleftrightarrow>
     (\<forall>k. openFiles st k \<noteq> None \<longrightarrow> known_key (handleCount st) k)
     \<and> (\<forall>k. openDirs st k \<noteq> None \<longrightarrow> known_key (handleCount st) k)
     \<and> (\<forall>k. openFiles st k = None \<or> openDirs st k = None)"

text \<open>A key that has been handed out and is in neither table any more.\<close>

definition retired :: "session \<Rightarrow> string \<Rightarrow> bool" where
  "retired st k \<longleftrightarrow>
     openFiles st k = None \<and> openDirs st k = None \<and> known_key (handleCount st) k"

text \<open>The ways in which a request changes the session, with the reply it sends.\<close>

inductive change :: "session \<Rightarrow> reply \<Rightarrow> session \<Rightarrow> bool" where
  unchanged: "(\<And>h. r \<noteq> Handle h) \<Longrightarrow> change st r st"
| counter: "(\<And>h. r \<noteq> Handle h) \<Longrightarrow> handleCount st \<le> n \<Longrightarrow> change st r (st\<lparr>handleCount := n\<rparr>)"
| new_file: "handleCount st < 4294967296 \<Longrightarrow>
    change st (Handle (writeUInt32BE (handleCount st)))
      (st\<lparr>handleCount := Suc (handleCount st),
          openFiles := (openFiles st)(key_of (handleCount st) \<mapsto> fd)\<rparr>)"
| new_dir: "handleCount st < 4294967296 \<Longrightarrow>
    change st (Handle (writeUInt32BE (handleCount st)))
      (st\<lparr>handleCount := Suc (handleCount st),
          openDirs := (openDirs st)(key_of (handleCount st) \<mapsto> di)\<rparr>)"
| advance: "(\<And>h. r \<noteq> Handle h) \<Longrightarrow> openDirs st k = Some di \<Longrightarrow>
    change st r (st\<lparr>openDirs := (openDirs st)(k \<mapsto> di')\<rparr>)"
| close_file: "(\<And>h. r \<noteq> Handle h) \<Longrightarrow>
    change st r (st\<lparr>openFiles := (openFiles st)(k := None)\<rparr>)"
| close_dir: "(\<And>h. r \<noteq> Handle h) \<Longrightarrow>
    change st r (st\<lparr>openDirs := (openDirs st)(k := None)\<rparr>)"

text \<open>
  The installation after the handle of \<open>loans.csv\<close> has been closed, and the session
  after the root directory has been opened for listing then.
\<close>

definition demo_closed :: "os \<times> session" where
  "demo_closed = snd (CLOSE_handler (fst demo_opened) (snd demo_opened) [0, 0, 0, 0])"

definition demo_reopened :: session where
  "demo_reopened = snd (serve demo_config (snd demo_closed) [(fst demo_closed, OPENDIR ''/'')])"

subsection \<open>The invariant of the module state\<close>

text \<open>
  As long as no server is closed: a pending promise is the one in \<open>startingPromise\<close>;
  a fulfilled promise names a server of the table; when there is a server it is the only
  one and \<open>startingPromise\<close> is the promise fulfilled with it; \<open>startingPromise\<close>
  and \<open>serverInstance\<close> point into their tables.
\<close>

definition lifecycle_inv :: "lifecycle \<Rightarrow> bool" where
  "lifecycle_inv m \<longleftrightarrow>
     (\<forall>p c. p < length (promises m) \<and> promises m ! p = Pending c \<longrightarrow> startingPromise m = Some p)
     \<and> (\<forall>p srv. p < length (promises m) \<and> promises m ! p = Fulfilled srv \<longrightarrow> srv < length (servers m))
     \<and> (servers m \<noteq> [] \<longrightarrow>
          length (servers m) = 1
          \<and> (\<exists>p. startingPromise m = Some p \<and> p < length (promises m) \<and> promises m ! p = Fulfilled 0))
     \<and> (\<forall>p. startingPromise m = Some p \<longrightarrow> p < length (promises m))
     \<and> (\<forall>srv. serverInstance m = Some srv \<longrightarrow> srv < length (servers m))"

text \<open>
  Two calls while the start is in flight, the end of the start, a call before and a call
  after the callback of \<open>listen\<close>.
\<close>

definition demo_events :: "event list" where
  "demo_events = [Call no_overrides, Call no_overrides, BodyDone 0 demo_unreadable_env,
     Call no_overrides, Listening 0, Call no_overrides]"

section \<open>Properties\<close>

subsection \<open>The path sandbox\<close>

text \<open>Whatever \<open>normalizePath\<close> returns has the root directory as a prefix of its text.\<close>

lemma normalizePath_Inr_prefix:
  "normalizePath wd p root = Inr r \<Longrightarrow> prefix root r"
  by (simp add: normalizePath_def Let_def split: if_splits)

text \<open>
  C1. Every path that \<open>normalizePath\<close> returns should lie within the root directory.
  The test of the code compares the texts of the two paths, so a directory beside the
  root whose name starts with the name of the root passes it: with the root
  \<open>/app/data\<close> the request \<open>/../data-old/loans.csv\<close> is resolved to
  \<open>/app/data-old/loans.csv\<close>, which is returned although it is outside the root.
\<close>

theorem normalizePath_sibling_escape:
  "normalizePath ''/app'' ''/../data-old/loans.csv'' ''/app/data'' = Inr ''/app/data-old/loans.csv''
   \<and> \<not> within_root ''/app/data'' ''/app/data-old/loans.csv''"
  by (simp add: normalizePath_def path_resolve_def normalizeString_def within_root_def)

subsection \<open>Authentication\<close>

text \<open>
  C6. An authentication attempt is accepted exactly when its method is \<open>password\<close>
  and both the user name and the password equal the configured pair; every other
  attempt is rejected.
\<close>

theorem authentication_accept_iff:
  "(authentication config ctx = Accept) =
     (auth_method ctx = ''password'' \<and> auth_username ctx = username config
        \<and> auth_password ctx = Some (password config))
   \<and> (authentication config ctx = Reject) =
     (\<not> (auth_method ctx = ''password'' \<and> auth_username ctx = username config
        \<and> auth_password ctx = Some (password config)))"
  by (simp add: authentication_def)

subsection \<open>Opening a file\<close>

text \<open>
  C3, as stated: a request to open a file whose flags ask for write access is answered
  with the permission-denied status. The code tests the read bit only, so the flags
  \<open>READ | WRITE\<close> (the value 3) open the file and a handle is created.
\<close>

theorem OPEN_read_write_counterexample:
  "(3 :: 32 word) AND OPEN_MODE_WRITE \<noteq> 0
   \<and> fst (OPEN_handler demo_config demo_os init_session ''/loans.csv'' 3) = Handle [0, 0, 0, 0]
   \<and> openFiles (snd (snd (OPEN_handler demo_config demo_os init_session ''/loans.csv'' 3))) ''00000000'' = Some 0"
  by (simp add: OPEN_handler_def OPEN_MODE_WRITE_def OPEN_MODE_READ_def demo_config_def demo_os_def
      normalizePath_def path_resolve_def normalizeString_def fs_open_def free_fd_def
      createHandle_def init_session_def writeUInt32BE_def handleKey_def hexDigit_def js_incr_def)

text \<open>
  C3, amended: a request to open a file whose flags do not ask for read access is
  answered with the permission-denied status; neither the files nor the session change,
  so no handle is created.
\<close>

theorem OPEN_without_read_denied:
  "flags AND OPEN_MODE_READ = 0 \<Longrightarrow>
     OPEN_handler config s st fname flags = (Status PERMISSION_DENIED, s, st)"
  by (simp add: OPEN_handler_def)

theorem OPEN_without_read_denied_witness:
  "(2 :: 32 word) AND OPEN_MODE_READ = 0
   \<and> OPEN_handler demo_config demo_os init_session ''/loans.csv'' 2
       = (Status PERMISSION_DENIED, demo_os, init_session)"
proof -
  have h: "(2 :: 32 word) AND OPEN_MODE_READ = 0"
    by (simp add: OPEN_MODE_READ_def)
  from OPEN_without_read_denied [OF h] h show ?thesis by simp
qed

subsection \<open>The host key and the start of the server\<close>

lemma demo_starting_eq:
  "demo_starting = \<lparr>serverInstance = None, startingPromise = Some 0,
      promises = [Pending demo_config], servers = []\<rparr>"
  by (simp add: demo_starting_def startMockSftpServer_def init_lifecycle_def merge_config_def
      no_overrides_def demo_config_def)

text \<open>
  C9, as stated: every failure of the file system while the key is read makes the start
  of the server fail. In the code a failed read of the key file is caught: a new key
  pair is generated and written, and the start goes on with the new key. Here the read
  fails, the start promise is fulfilled and the server holds the new key.
\<close>

theorem unreadable_key_counterexample:
  "readFile_key demo_unreadable_env = Inl FsError
   \<and> promises (body_done demo_starting 0 demo_unreadable_env) = [Fulfilled 0]
   \<and> map hostKey (servers (body_done demo_starting 0 demo_unreadable_env)) = [[1, 2, 3]]"
  by (simp add: demo_starting_eq body_done_def start_body_def ensureHostKey_def demo_unreadable_env_def)

text \<open>
  C9, amended: when creating the directory of the key fails, or, after a failed read of
  the key file, generating the key pair or writing the new key fails, the start promise
  is rejected with that error, \<open>startingPromise\<close> is cleared and no server is created.
  A failed read of the key file alone is not fatal: when the new key is generated and
  written, \<open>ensureHostKey\<close> returns the new key.
\<close>

theorem key_store_failures:
  "(p < length (promises m) \<and> promises m ! p = Pending config
      \<and> (mkdir_keydir env = Inl e
          \<or> (mkdir_keydir env = Inr u \<and> readFile_key env = Inl e'
               \<and> (generateKeyPairSync env = Inl e
                   \<or> (generateKeyPairSync env = Inr k \<and> writeFile_key env = Inl e))))
     \<longrightarrow> body_done m p env = m\<lparr>promises := (promises m)[p := Rejected e], startingPromise := None\<rparr>)
   \<and> (mkdir_keydir env = Inr u \<and> readFile_key env = Inl e' \<and> generateKeyPairSync env = Inr k
        \<and> writeFile_key env = Inr u
     \<longrightarrow> ensureHostKey env = Inr k)"
  by (auto simp: body_done_def start_body_def ensureHostKey_def)

theorem key_store_failures_witness:
  "promises (body_done demo_starting 0 (demo_unreadable_env\<lparr>writeFile_key := Inl FsError\<rparr>)) = [Rejected FsError]
   \<and> servers (body_done demo_starting 0 (demo_unreadable_env\<lparr>writeFile_key := Inl FsError\<rparr>)) = []
   \<and> startingPromise (body_done demo_starting 0 (demo_unreadable_env\<lparr>writeFile_key := Inl FsError\<rparr>)) = None
   \<and> ensureHostKey demo_unreadable_env = Inr [1, 2, 3]"
  using key_store_failures [of 0 demo_starting demo_config
      "demo_unreadable_env\<lparr>writeFile_key := Inl FsError\<rparr>" FsError "()" FsError "[1, 2, 3]"]
    key_store_failures [of 0 demo_starting demo_config demo_unreadable_env FsError "()" FsError "[1, 2, 3]"]
  by (simp add: demo_starting_eq demo_unreadable_env_def)

subsection \<open>Reading a file in chunks\<close>






lemma createHandle_Inl:
  assumes "createHandle st = (Inl e, st')"
  shows "st' = st\<lparr>handleCount := js_incr (handleCount st)\<rparr> \<and> handleCount st \<le> handleCount st'"
  using assms by (auto simp: createHandle_def Let_def js_incr_def split: if_splits)


lemma fs_open_data:
  assumes "fs_open s0 p = (Inr fd, s)" "file_content s0 p = Some bs"
  shows "fd_data s fd = Inr bs"
  using assms
  by (auto simp: fs_open_def file_content_def lookup_inode_def fd_data_def Let_def
      split: option.splits content.splits)



lemma demo_OPEN:
  "OPEN_handler demo_config demo_os init_session ''/loans.csv'' 1
     = (Handle [0, 0, 0, 0], fst demo_opened, snd demo_opened)"
  by (simp add: demo_opened_def OPEN_handler_def OPEN_MODE_READ_def demo_config_def
      normalizePath_def path_resolve_def normalizeString_def
      demo_os_def fs_open_def free_fd_def createHandle_def init_session_def writeUInt32BE_def js_incr_def)

lemma demo_opened_eq:
  "demo_opened = (demo_os\<lparr>fds := [(0, 2)]\<rparr>,
     \<lparr>openFiles = [''00000000'' \<mapsto> 0], openDirs = Map.empty, handleCount = 1\<rparr>)"
  by (simp add: demo_opened_def OPEN_handler_def OPEN_MODE_READ_def demo_config_def
      normalizePath_def path_resolve_def normalizeString_def
      demo_os_def fs_open_def free_fd_def createHandle_def init_session_def writeUInt32BE_def
      js_incr_def handleKey_def hexDigit_def)

lemma handleKey_zero: "handleKey [0, 0, 0, 0] = ''00000000''"
  by (simp add: handleKey_def hexDigit_def)





subsection \<open>Listing a directory\<close>

lemma listNext_calls_general:
  assumes "openDirs st (handleKey h) = Some \<lparr>files = fs, index = min k (length fs), dirPath = d\<rparr>"
    and "length fs < 2 ^ 32"
  shows "listNext_calls st h ss = map (listing_reply d fs) (enumerate k ss)"
  using assms(1)
proof (induction ss arbitrary: st k)
  case Nil
  then show ?case by simp
next
  case (Cons s ss)
  show ?case
  proof (cases "k < length fs")
    case False
    then have m: "min k (length fs) = length fs" "min (Suc k) (length fs) = length fs" by simp_all
    have r: "READDIR_handler s st h = (Status EOF, s, st)"
      using Cons.prems m by (simp add: READDIR_handler_def Let_def)
    have "listNext_calls st h ss = map (listing_reply d fs) (enumerate (Suc k) ss)"
      using Cons.IH [of st "Suc k"] Cons.prems m by simp
    with r False show ?thesis by (simp add: listing_reply_def)
  next
    case True
    then have m: "min k (length fs) = k" "min (Suc k) (length fs) = Suc k" by simp_all
    have "k < 2 ^ 53"
    proof -
      have "(2::nat) ^ 32 \<le> 2 ^ 53" by simp
      with True assms(2) show ?thesis by linarith
    qed
    then have j: "js_incr k = Suc k" by (simp add: js_incr_def)
    define st' where "st' = st\<lparr>openDirs := (openDirs st)(handleKey h \<mapsto>
        \<lparr>files = fs, index = Suc k, dirPath = d\<rparr>)\<rparr>"
    have r: "READDIR_handler s st h = (listing_reply d fs (k, s), s, st')"
      using Cons.prems m True j
      by (simp add: READDIR_handler_def Let_def listing_reply_def st'_def split: sum.splits)
    have "openDirs st' (handleKey h) = Some \<lparr>files = fs, index = min (Suc k) (length fs), dirPath = d\<rparr>"
      using m by (simp add: st'_def)
    then have "listNext_calls st' h ss = map (listing_reply d fs) (enumerate (Suc k) ss)"
      by (rule Cons.IH)
    with r show ?thesis by simp
  qed
qed

lemma listed_listing_subseq:
  "subseq (listed (map (listing_reply d fs) (enumerate k ss))) (drop k fs)"
proof (induction ss arbitrary: k)
  case Nil
  then show ?case by simp
next
  case (Cons s ss)
  have ih: "subseq (listed (map (listing_reply d fs) (enumerate (Suc k) ss))) (drop (Suc k) fs)"
    by (rule Cons.IH)
  show ?case
  proof (cases "k < length fs")
    case False
    then show ?thesis using ih by (simp add: listing_reply_def)
  next
    case True
    then have d: "drop k fs = fs ! k # drop (Suc k) fs"
      by (simp add: Cons_nth_drop_Suc)
    show ?thesis
    proof (cases "fs_stat s (path_join [d, fs ! k])")
      case (Inl e)
      with True ih d show ?thesis by (simp add: listing_reply_def list_emb_Cons)
    next
      case (Inr stat)
      with True ih d show ?thesis by (simp add: listing_reply_def)
    qed
  qed
qed

lemma OPENDIR_Handle:
  assumes "OPENDIR_handler config s0 st0 pathname = (Handle h, s1, st1)"
    and "normalizePath (cwd s0) pathname (rootDir config) = Inr d"
    and "fs_readdir s0 d = Inr fs"
  shows "openDirs st1 (handleKey h) = Some \<lparr>files = fs, index = 0, dirPath = d\<rparr>"
proof -
  obtain rc st' where c: "createHandle st0 = (rc, st')" by (cases "createHandle st0")
  with assms show ?thesis
    by (cases rc) (auto simp: OPENDIR_handler_def)
qed

text \<open>
  C5, amended: the names of a directory are captured once, when the directory is opened.
  The \<open>i\<close>-th call of \<open>READDIR\<close> on the handle takes the \<open>i\<close>-th captured name: it
  replies with that entry when \<open>stat\<close> of the entry succeeds at that moment, and with
  the failure status when it does not, and the name is not offered again. Once the
  captured names are used up every call replies with the end-of-file status. The names
  that are listed are therefore a subsequence of the captured names, in their order,
  whatever happens to the directory after it was opened. The captured list is a
  JavaScript array, whose length is below \<open>2^32\<close>.
\<close>

theorem listing_follows_snapshot:
  assumes "OPENDIR_handler config s0 st0 pathname = (Handle h, s1, st1)"
    and "normalizePath (cwd s0) pathname (rootDir config) = Inr d"
    and "fs_readdir s0 d = Inr fs"
    and "length fs < 2 ^ 32"
  shows "listNext_calls st1 h ss = map (listing_reply d fs) (enumerate 0 ss)
    \<and> subseq (listed (listNext_calls st1 h ss)) fs"
proof -
  have "openDirs st1 (handleKey h) = Some \<lparr>files = fs, index = min 0 (length fs), dirPath = d\<rparr>"
    using OPENDIR_Handle [OF assms(1-3)] by simp
  then have e: "listNext_calls st1 h ss = map (listing_reply d fs) (enumerate 0 ss)"
    using assms(4) by (rule listNext_calls_general)
  moreover have "subseq (listed (listNext_calls st1 h ss)) fs"
    using listed_listing_subseq [of d fs 0 ss] e by simp
  ultimately show ?thesis by blast
qed

lemma demo_norm_root:
  "normalizePath (cwd demo_os) ''/'' (rootDir demo_config) = Inr ''/app/data''"
  by (simp add: normalizePath_def path_resolve_def normalizeString_def demo_os_def demo_config_def)

lemma demo_readdir: "fs_readdir demo_os ''/app/data'' = Inr [''loans.csv'']"
  by (simp add: fs_readdir_def lookup_inode_def demo_os_def)

lemma demo_OPENDIR:
  "OPENDIR_handler demo_config demo_os init_session ''/'' = (Handle [0, 0, 0, 0], demo_os, demo_listing)"
  by (simp add: demo_listing_def OPENDIR_handler_def demo_config_def
      normalizePath_def path_resolve_def normalizeString_def fs_readdir_def lookup_inode_def
      demo_os_def createHandle_def init_session_def writeUInt32BE_def js_incr_def)

lemma demo_listing_eq:
  "demo_listing = \<lparr>openFiles = Map.empty,
     openDirs = [''00000000'' \<mapsto> \<lparr>files = [''loans.csv''], index = 0, dirPath = ''/app/data''\<rparr>],
     handleCount = 1\<rparr>"
  by (simp add: demo_listing_def OPENDIR_handler_def demo_config_def
      normalizePath_def path_resolve_def normalizeString_def fs_readdir_def lookup_inode_def
      demo_os_def createHandle_def init_session_def writeUInt32BE_def js_incr_def
      handleKey_def hexDigit_def)

text \<open>
  C5, as stated: repeated calls yield each captured entry exactly once. When
  \<open>loans.csv\<close> is removed after the directory was opened, the call that reaches it
  replies with the failure status and the next call with the end-of-file status: the
  captured entry is never yielded.
\<close>

theorem removed_entry_counterexample:
  "fst (OPENDIR_handler demo_config demo_os init_session ''/'') = Handle [0, 0, 0, 0]
   \<and> fs_readdir demo_os ''/app/data'' = Inr [''loans.csv'']
   \<and> listNext_calls demo_listing [0, 0, 0, 0] [demo_os_removed, demo_os_removed]
        = [Status FAILURE, Status EOF]"
proof -
  have "listNext_calls demo_listing [0, 0, 0, 0] [demo_os_removed, demo_os_removed]
        = [Status FAILURE, Status EOF]"
    by (simp add: demo_listing_eq READDIR_handler_def Let_def handleKey_def
      hexDigit_def js_incr_def path_join_def path_normalize_def normalizeString_def
      fs_stat_def lookup_inode_def demo_os_removed_def demo_os_def)
  then show ?thesis
    by (simp add: demo_OPENDIR demo_readdir)
qed

theorem listing_follows_snapshot_witness:
  "listNext_calls demo_listing [0, 0, 0, 0] [demo_os, demo_os_removed]
      = map (listing_reply ''/app/data'' [''loans.csv'']) (enumerate 0 [demo_os, demo_os_removed])
   \<and> listed (listNext_calls demo_listing [0, 0, 0, 0] [demo_os, demo_os_removed]) = [''loans.csv'']"
proof -
  have l: "length [''loans.csv''] < (2::nat) ^ 32" by simp
  from listing_follows_snapshot [OF demo_OPENDIR demo_norm_root demo_readdir l,
      of "[demo_os, demo_os_removed]"]
  have e: "listNext_calls demo_listing [0, 0, 0, 0] [demo_os, demo_os_removed]
      = map (listing_reply ''/app/data'' [''loans.csv'']) (enumerate 0 [demo_os, demo_os_removed])"
    by blast
  have "listed (map (listing_reply ''/app/data'' [''loans.csv'']) (enumerate 0 [demo_os, demo_os_removed]))
      = [''loans.csv'']"
    by (simp add: listing_reply_def path_join_def path_normalize_def normalizeString_def
      fs_stat_def lookup_inode_def demo_os_def)
  with e show ?thesis by simp
qed

subsection \<open>Handles and their keys\<close>

text \<open>
  The key of a handle determines the handle, and a counter value below \<open>2^32\<close> can be
  read back from the four bytes written for it.
\<close>

lemma hexDigit_inj: "m < 16 \<Longrightarrow> n < 16 \<Longrightarrow> hexDigit m = hexDigit n \<Longrightarrow> m = n"
proof -
  assume a: "m < 16" "n < 16" "hexDigit m = hexDigit n"
  have d: "distinct ''0123456789abcdef''" by simp
  have "(''0123456789abcdef'' ! m = ''0123456789abcdef'' ! n) = (m = n)"
    using a(1,2) by (intro nth_eq_iff_index_eq [OF d]) simp_all
  with a(3) show ?thesis by (simp add: hexDigit_def)
qed

lemma handleKey_Cons:
  "handleKey (b # h) = hexDigit (unat b div 16) # hexDigit (unat b mod 16) # handleKey h"
  by (simp add: handleKey_def)

lemma handleKey_Nil: "handleKey [] = []"
  by (simp add: handleKey_def)

lemma byte_nibbles_inj:
  fixes a b :: byte
  assumes "hexDigit (unat a div 16) = hexDigit (unat b div 16)"
    and "hexDigit (unat a mod 16) = hexDigit (unat b mod 16)"
  shows "a = b"
proof -
  have la: "unat a < 256" and lb: "unat b < 256"
    using unsigned_less [of a] unsigned_less [of b] by simp_all
  then have "unat a div 16 < 16" "unat b div 16 < 16" by simp_all
  then have d: "unat a div 16 = unat b div 16" using assms(1) by (rule hexDigit_inj)
  have "unat a mod 16 < 16" "unat b mod 16 < 16" by simp_all
  then have m: "unat a mod 16 = unat b mod 16" using assms(2) by (rule hexDigit_inj)
  have "unat a = unat a div 16 * 16 + unat a mod 16" by simp
  also have "\<dots> = unat b div 16 * 16 + unat b mod 16" by (simp only: d m)
  also have "\<dots> = unat b" by simp
  finally have "unat a = unat b" .
  then show ?thesis by (simp add: word_unat_eq_iff)
qed

lemma handleKey_inj: "handleKey g = handleKey h \<Longrightarrow> g = h"
proof (induction g arbitrary: h)
  case Nil
  then show ?case by (cases h) (simp_all add: handleKey_Nil handleKey_Cons)
next
  case (Cons a g)
  show ?case
  proof (cases h)
    case Nil
    with Cons.prems show ?thesis by (simp add: handleKey_Nil handleKey_Cons)
  next
    case (Cons b h')
    with Cons.prems have "a = b" "handleKey g = handleKey h'"
      by (auto simp: handleKey_Cons intro: byte_nibbles_inj)
    with Cons.IH Cons show ?thesis by simp
  qed
qed

lemma read_write_UInt32BE:
  assumes "v < 4294967296"
  shows "readUInt32BE (writeUInt32BE v) = v"
proof -
  define x where "x = v div 256"
  define y where "y = x div 256"
  define z where "z = y div 256"
  have d1: "v div 65536 = y"
    by (simp add: x_def y_def div_mult2_eq)
  have d2: "v div 16777216 = z"
    by (simp add: x_def y_def z_def div_mult2_eq)
  have "v div 16777216 < 256"
    using assms by (intro less_mult_imp_div_less) simp
  then have "z < 256"
    by (simp only: d2)
  then have zm: "z mod 256 = z" by simp
  have "readUInt32BE (writeUInt32BE v) =
      ((z mod 256 * 256 + y mod 256) * 256 + x mod 256) * 256 + v mod 256"
    by (simp add: readUInt32BE_def writeUInt32BE_def unat_of_nat d1 d2 x_def [symmetric])
  also have "\<dots> = ((z * 256 + y mod 256) * 256 + x mod 256) * 256 + v mod 256"
    by (simp only: zm)
  also have "z * 256 + y mod 256 = y"
    unfolding z_def by (rule div_mult_mod_eq)
  also have "y * 256 + x mod 256 = x"
    unfolding y_def by (rule div_mult_mod_eq)
  also have "x * 256 + v mod 256 = v"
    unfolding x_def by (rule div_mult_mod_eq)
  finally show ?thesis .
qed

subsection \<open>The handle table\<close>

lemma key_of_inj:
  assumes "v < 4294967296" "w < 4294967296" "key_of v = key_of w"
  shows "v = w"
proof -
  from assms(3) have "writeUInt32BE v = writeUInt32BE w"
    unfolding key_of_def by (rule handleKey_inj)
  then have "readUInt32BE (writeUInt32BE v) = readUInt32BE (writeUInt32BE w)" by simp
  with assms(1,2) show ?thesis by (simp add: read_write_UInt32BE)
qed

lemma createHandle_cases:
  "createHandle st =
     (if handleCount st < 4294967296
      then (Inr (writeUInt32BE (handleCount st)), st\<lparr>handleCount := Suc (handleCount st)\<rparr>)
      else (Inl RangeError, st\<lparr>handleCount := js_incr (handleCount st)\<rparr>))"
  by (auto simp: createHandle_def Let_def js_incr_def)

lemma js_incr_ge: "n \<le> js_incr n"
  by (simp add: js_incr_def)

lemma change_REALPATH: "REALPATH_handler s st p = (r, s', st') \<Longrightarrow> change st r st'"
  by (auto simp: REALPATH_handler_def intro: change.unchanged)

lemma change_STAT: "STAT_handler config s st p = (r, s', st') \<Longrightarrow> change st r st'"
  by (auto simp: STAT_handler_def intro: change.unchanged split: sum.splits)

lemma change_LSTAT: "LSTAT_handler config s st p = (r, s', st') \<Longrightarrow> change st r st'"
  by (auto simp: LSTAT_handler_def intro: change.unchanged split: sum.splits)

lemma change_OPENDIR:
  assumes "OPENDIR_handler config s st p = (r, s', st')"
  shows "change st r st'"
proof (cases "normalizePath (cwd s) p (rootDir config)")
  case (Inl e)
  with assms show ?thesis by (auto simp: OPENDIR_handler_def intro: change.unchanged)
next
  case (Inr d)
  show ?thesis
  proof (cases "fs_readdir s d")
    case (Inl e)
    with Inr assms show ?thesis by (auto simp: OPENDIR_handler_def intro: change.unchanged)
  next
    case (Inr fs)
    show ?thesis
    proof (cases "handleCount st < 4294967296")
      case True
      with \<open>normalizePath (cwd s) p (rootDir config) = Inr d\<close> Inr assms
      have "r = Handle (writeUInt32BE (handleCount st))"
        and "st' = st\<lparr>handleCount := Suc (handleCount st),
          openDirs := (openDirs st)(key_of (handleCount st) \<mapsto> \<lparr>files = fs, index = 0, dirPath = d\<rparr>)\<rparr>"
        by (auto simp: OPENDIR_handler_def createHandle_cases key_of_def)
      with True show ?thesis by (simp add: change.new_dir)
    next
      case False
      with \<open>normalizePath (cwd s) p (rootDir config) = Inr d\<close> Inr assms
      have "r = Status FAILURE" and "st' = st\<lparr>handleCount := js_incr (handleCount st)\<rparr>"
        by (auto simp: OPENDIR_handler_def createHandle_cases)
      then show ?thesis by (simp add: change.counter js_incr_ge)
    qed
  qed
qed

lemma change_OPEN:
  assumes "OPEN_handler config s st p flags = (r, s', st')"
  shows "change st r st'"
proof (cases "flags AND OPEN_MODE_READ = 0")
  case True
  with assms show ?thesis by (auto simp: OPEN_handler_def intro: change.unchanged)
next
  case nz: False
  show ?thesis
  proof (cases "normalizePath (cwd s) p (rootDir config)")
    case (Inl e)
    with nz assms show ?thesis by (auto simp: OPEN_handler_def intro: change.unchanged)
  next
    case (Inr d)
    obtain ro s1 where o: "fs_open s d = (ro, s1)" by (cases "fs_open s d")
    show ?thesis
    proof (cases ro)
      case (Inl e)
      with nz Inr o assms show ?thesis by (auto simp: OPEN_handler_def intro: change.unchanged)
    next
      case fd: (Inr fd)
      show ?thesis
      proof (cases "handleCount st < 4294967296")
        case True
        with nz Inr o fd assms
        have "r = Handle (writeUInt32BE (handleCount st))"
          and "st' = st\<lparr>handleCount := Suc (handleCount st),
            openFiles := (openFiles st)(key_of (handleCount st) \<mapsto> fd)\<rparr>"
          by (auto simp: OPEN_handler_def createHandle_cases key_of_def)
        with True show ?thesis by (simp add: change.new_file)
      next
        case False
        with nz Inr o fd assms
        have "r = Status FAILURE" and "st' = st\<lparr>handleCount := js_incr (handleCount st)\<rparr>"
          by (auto simp: OPEN_handler_def createHandle_cases)
        then show ?thesis by (simp add: change.counter js_incr_ge)
      qed
    qed
  qed
qed

lemma change_READDIR:
  assumes "READDIR_handler s st h = (r, s', st')"
  shows "change st r st'"
proof (cases "openDirs st (handleKey h)")
  case None
  with assms show ?thesis by (auto simp: READDIR_handler_def intro: change.unchanged)
next
  case (Some di)
  show ?thesis
  proof (cases "index di \<ge> length (files di)")
    case True
    with Some assms show ?thesis by (auto simp: READDIR_handler_def intro: change.unchanged)
  next
    case False
    with Some assms have nh: "\<And>g. r \<noteq> Handle g"
      and "st' = st\<lparr>openDirs := (openDirs st)(handleKey h \<mapsto> di\<lparr>index := js_incr (index di)\<rparr>)\<rparr>"
      by (auto simp: READDIR_handler_def Let_def split: sum.splits)
    with Some show ?thesis by (simp add: change.advance)
  qed
qed

lemma change_READ: "READ_handler s st h offset len = (r, s', st') \<Longrightarrow> change st r st'"
  by (auto simp: READ_handler_def intro: change.unchanged split: option.splits sum.splits if_splits)

lemma change_CLOSE:
  assumes "CLOSE_handler s st h = (r, s', st')"
  shows "change st r st'"
proof (cases "openFiles st (handleKey h)")
  case (Some fd)
  obtain rc s1 where c: "fs_close s fd = (rc, s1)" by (cases "fs_close s fd")
  with Some assms have "\<And>g. r \<noteq> Handle g"
    and "st' = st\<lparr>openFiles := (openFiles st)(handleKey h := None)\<rparr>"
    by (cases rc; auto simp: CLOSE_handler_def Let_def)+
  then show ?thesis by (simp add: change.close_file)
next
  case None
  show ?thesis
  proof (cases "openDirs st (handleKey h)")
    case None
    with \<open>openFiles st (handleKey h) = None\<close> assms show ?thesis
      by (auto simp: CLOSE_handler_def Let_def intro: change.unchanged)
  next
    case (Some di)
    with \<open>openFiles st (handleKey h) = None\<close> assms have "\<And>g. r \<noteq> Handle g"
      and "st' = st\<lparr>openDirs := (openDirs st)(handleKey h := None)\<rparr>"
      by (auto simp: CLOSE_handler_def Let_def)
    then show ?thesis by (simp add: change.close_dir)
  qed
qed

lemma dispatch_change: "dispatch config s st req = (r, s', st') \<Longrightarrow> change st r st'"
  by (cases req)
    (auto intro: change_REALPATH change_STAT change_LSTAT change_OPENDIR change_READDIR
      change_OPEN change_READ change_CLOSE)

lemma known_key_mono:
  assumes "known_key n k" "n \<le> m"
  shows "known_key m k"
proof -
  from assms(1) obtain v where v: "v < n" "v < 4294967296" "k = key_of v"
    unfolding known_key_def by blast
  from v(1) assms(2) have "v < m" by simp
  with v(2,3) show ?thesis
    unfolding known_key_def by blast
qed

lemma known_key_fresh: "n < 4294967296 \<Longrightarrow> \<not> known_key n (key_of n)"
  unfolding known_key_def using key_of_inj [of n] by auto

lemma known_key_Suc: "n < 4294967296 \<Longrightarrow> known_key (Suc n) (key_of n)"
  unfolding known_key_def by auto

lemma change_count: "change st r st' \<Longrightarrow> handleCount st \<le> handleCount st'"
  by (induction rule: change.induct) simp_all

lemma change_Handle:
  assumes "change st (Handle h) st'"
  shows "h = writeUInt32BE (handleCount st) \<and> handleCount st < 4294967296
    \<and> handleCount st' = Suc (handleCount st)"
  using assms by (cases rule: change.cases) auto

lemma change_inv:
  assumes "change st r st'" "session_inv st"
  shows "session_inv st'"
  using assms
proof (induction rule: change.induct)
  case (unchanged r st)
  then show ?case by simp
next
  case (counter r st n)
  then show ?case unfolding session_inv_def by (auto intro: known_key_mono)
next
  case (new_file st fd)
  have m: "\<And>k. known_key (handleCount st) k \<Longrightarrow> known_key (Suc (handleCount st)) k"
    by (erule known_key_mono) simp
  from new_file.prems known_key_fresh [OF new_file.hyps]
  have fresh: "openFiles st (key_of (handleCount st)) = None" "openDirs st (key_of (handleCount st)) = None"
    unfolding session_inv_def by blast+
  with new_file.prems known_key_Suc [OF new_file.hyps] m show ?case
    unfolding session_inv_def by auto
next
  case (new_dir st di)
  have m: "\<And>k. known_key (handleCount st) k \<Longrightarrow> known_key (Suc (handleCount st)) k"
    by (erule known_key_mono) simp
  from new_dir.prems known_key_fresh [OF new_dir.hyps]
  have fresh: "openFiles st (key_of (handleCount st)) = None" "openDirs st (key_of (handleCount st)) = None"
    unfolding session_inv_def by blast+
  with new_dir.prems known_key_Suc [OF new_dir.hyps] m show ?case
    unfolding session_inv_def by auto
next
  case (advance r st k di di')
  then show ?case unfolding session_inv_def by auto
next
  case (close_file r st k)
  then show ?case unfolding session_inv_def by auto
next
  case (close_dir r st k)
  then show ?case unfolding session_inv_def by auto
qed

lemma change_retired:
  assumes "change st r st'" "retired st k"
  shows "retired st' k"
  using assms
proof (induction rule: change.induct)
  case (unchanged r st)
  then show ?case by simp
next
  case (counter r st n)
  then show ?case unfolding retired_def by (auto intro: known_key_mono)
next
  case (new_file st fd)
  from new_file.prems have kk: "known_key (handleCount st) k"
    unfolding retired_def by simp
  with known_key_fresh [OF new_file.hyps] have "key_of (handleCount st) \<noteq> k" by auto
  moreover from kk have "known_key (Suc (handleCount st)) k"
    by (rule known_key_mono) simp
  ultimately show ?case
    using new_file.prems unfolding retired_def by auto
next
  case (new_dir st di)
  from new_dir.prems have kk: "known_key (handleCount st) k"
    unfolding retired_def by simp
  with known_key_fresh [OF new_dir.hyps] have "key_of (handleCount st) \<noteq> k" by auto
  moreover from kk have "known_key (Suc (handleCount st)) k"
    by (rule known_key_mono) simp
  ultimately show ?case
    using new_dir.prems unfolding retired_def by auto
next
  case (advance r st k' di di')
  then show ?case unfolding retired_def by auto
next
  case (close_file r st k')
  then show ?case unfolding retired_def by auto
next
  case (close_dir r st k')
  then show ?case unfolding retired_def by auto
qed

lemma init_session_inv: "session_inv init_session"
  by (simp add: session_inv_def init_session_def)

lemma serve_Cons:
  "serve config st ((s, req) # rest) = (rs, st'') \<Longrightarrow>
     \<exists>r s' st' rs'. dispatch config s st req = (r, s', st') \<and> serve config st' rest = (rs', st'')
        \<and> rs = r # rs'"
  by (auto split: prod.splits)

lemma serve_inv:
  assumes "serve config st evs = (rs, st')" "session_inv st"
  shows "session_inv st'"
  using assms
proof (induction evs arbitrary: st rs)
  case Nil
  then show ?case by simp
next
  case (Cons ev evs)
  obtain s req where ev: "ev = (s, req)" by (cases ev)
  from serve_Cons [OF Cons.prems(1) [unfolded ev]] obtain r s1 st1 rs1 where
    d: "dispatch config s st req = (r, s1, st1)" and sv: "serve config st1 evs = (rs1, st')"
    by blast
  from change_inv [OF dispatch_change [OF d] Cons.prems(2)] have "session_inv st1" .
  with sv show ?case by (rule Cons.IH)
qed

lemma serve_retired:
  assumes "serve config st evs = (rs, st')" "retired st k"
  shows "retired st' k"
  using assms
proof (induction evs arbitrary: st rs)
  case Nil
  then show ?case by simp
next
  case (Cons ev evs)
  obtain s req where ev: "ev = (s, req)" by (cases ev)
  from serve_Cons [OF Cons.prems(1) [unfolded ev]] obtain r s1 st1 rs1 where
    d: "dispatch config s st req = (r, s1, st1)" and sv: "serve config st1 evs = (rs1, st')"
    by blast
  from change_retired [OF dispatch_change [OF d] Cons.prems(2)] have "retired st1 k" .
  with sv show ?case by (rule Cons.IH)
qed

lemma serve_count:
  assumes "serve config st evs = (rs, st')"
  shows "handleCount st \<le> handleCount st'"
  using assms
proof (induction evs arbitrary: st rs)
  case Nil
  then show ?case by simp
next
  case (Cons ev evs)
  obtain s req where ev: "ev = (s, req)" by (cases ev)
  from serve_Cons [OF Cons.prems(1) [unfolded ev]] obtain r s1 st1 rs1 where
    d: "dispatch config s st req = (r, s1, st1)" and sv: "serve config st1 evs = (rs1, st')"
    by blast
  from change_count [OF dispatch_change [OF d]] Cons.IH [OF sv] show ?case by simp
qed

lemma retired_replies:
  assumes "retired st (handleKey h)"
  shows "fst (READ_handler s st h offset len) = Status FAILURE"
    and "fst (READDIR_handler s st h) = Status FAILURE"
    and "fst (CLOSE_handler s st h) = Status FAILURE"
  using assms by (simp_all add: retired_def READ_handler_def READDIR_handler_def CLOSE_handler_def)

lemma CLOSE_OK_retired:
  assumes "session_inv st" "CLOSE_handler s st h = (Status OK, s1, st1)"
  shows "retired st1 (handleKey h)"
proof (cases "openFiles st (handleKey h)")
  case (Some fd)
  obtain rc s2 where c: "fs_close s fd = (rc, s2)" by (cases "fs_close s fd")
  with Some assms(2) have st1: "st1 = st\<lparr>openFiles := (openFiles st)(handleKey h := None)\<rparr>"
    by (cases rc) (auto simp: CLOSE_handler_def Let_def)
  from assms(1) Some have "openDirs st (handleKey h) = None"
    and "known_key (handleCount st) (handleKey h)"
    unfolding session_inv_def by (metis option.distinct(1))+
  with st1 show ?thesis by (simp add: retired_def)
next
  case None
  show ?thesis
  proof (cases "openDirs st (handleKey h)")
    case None
    with \<open>openFiles st (handleKey h) = None\<close> assms(2) show ?thesis
      by (simp add: CLOSE_handler_def)
  next
    case (Some di)
    with None assms(2) have st1: "st1 = st\<lparr>openDirs := (openDirs st)(handleKey h := None)\<rparr>"
      by (auto simp: CLOSE_handler_def Let_def)
    from assms(1) Some have "known_key (handleCount st) (handleKey h)"
      unfolding session_inv_def by (metis option.distinct(1))
    with st1 None show ?thesis by (simp add: retired_def)
  qed
qed

text \<open>
  C4. In a session, after a \<open>CLOSE\<close> of a handle has been answered with the status
  OK, every later \<open>READ\<close>, \<open>READDIR\<close> and \<open>CLOSE\<close> that names the same handle
  is answered with the failure status, whatever requests are served in between and
  whatever the files are.
\<close>

theorem closed_handle_unknown:
  assumes "serve config init_session evs1 = (rs1, st)"
    and "CLOSE_handler s st h = (Status OK, s1, st1)"
    and "serve config st1 evs2 = (rs2, st2)"
  shows "fst (READ_handler s2 st2 h offset len) = Status FAILURE
    \<and> fst (READDIR_handler s3 st2 h) = Status FAILURE
    \<and> fst (CLOSE_handler s4 st2 h) = Status FAILURE"
proof -
  from serve_inv [OF assms(1) init_session_inv] have "session_inv st" .
  from CLOSE_OK_retired [OF this assms(2)] have "retired st1 (handleKey h)" .
  from serve_retired [OF assms(3) this] have "retired st2 (handleKey h)" .
  then show ?thesis by (simp add: retired_replies)
qed

lemma triple_eqI: "fst X = a \<Longrightarrow> X = (a, fst (snd X), snd (snd X))"
  by (cases X) auto

lemma demo_serve_open:
  "serve demo_config init_session [(demo_os, OPEN ''/loans.csv'' 1)]
     = ([Handle [0, 0, 0, 0]], snd demo_opened)"
  by (simp add: demo_OPEN case_prod_unfold)

lemma demo_CLOSE:
  "CLOSE_handler (fst demo_opened) (snd demo_opened) [0, 0, 0, 0]
     = (Status OK, fst demo_closed, snd demo_closed)"
  unfolding demo_closed_def
  by (rule triple_eqI) (simp add: demo_opened_eq CLOSE_handler_def handleKey_zero fs_close_def)

lemma demo_serve_reopen:
  "serve demo_config (snd demo_closed) [(fst demo_closed, OPENDIR ''/'')]
     = (fst (serve demo_config (snd demo_closed) [(fst demo_closed, OPENDIR ''/'')]), demo_reopened)"
  by (simp add: demo_reopened_def)

theorem closed_handle_unknown_witness:
  "fst (READ_handler demo_os demo_reopened [0, 0, 0, 0] 0 10) = Status FAILURE
   \<and> fst (READDIR_handler demo_os demo_reopened [0, 0, 0, 0]) = Status FAILURE
   \<and> fst (CLOSE_handler demo_os demo_reopened [0, 0, 0, 0]) = Status FAILURE"
  by (rule closed_handle_unknown [OF demo_serve_open demo_CLOSE demo_serve_reopen])

lemma issued_not_Handle: "\<forall>h. r \<noteq> Handle h \<Longrightarrow> issued (r # rs) = issued rs"
  by (cases r) simp_all

lemma length_writeUInt32BE: "length (writeUInt32BE v) = 4"
  by (simp add: writeUInt32BE_def)

lemma serve_issued:
  assumes "serve config st evs = (rs, st')"
  shows "(\<forall>h \<in> set (issued rs). handleCount st \<le> readUInt32BE h \<and> length h = 4)
    \<and> sorted_wrt (<) (map readUInt32BE (issued rs))"
  using assms
proof (induction evs arbitrary: st rs)
  case Nil
  then show ?case by simp
next
  case (Cons ev evs)
  obtain s req where ev: "ev = (s, req)" by (cases ev)
  from serve_Cons [OF Cons.prems(1) [unfolded ev]] obtain r s1 st1 rs1 where
    d: "dispatch config s st req = (r, s1, st1)" and sv: "serve config st1 evs = (rs1, st')"
    and rs: "rs = r # rs1"
    by blast
  from Cons.IH [OF sv] have ih1: "\<forall>h \<in> set (issued rs1). handleCount st1 \<le> readUInt32BE h \<and> length h = 4"
    and ih2: "sorted_wrt (<) (map readUInt32BE (issued rs1))"
    by blast+
  have ch: "change st r st1" using d by (rule dispatch_change)
  show ?case
  proof (cases "\<exists>h. r = Handle h")
    case False
    then have "issued rs = issued rs1"
      by (simp add: rs issued_not_Handle)
    with ih1 ih2 change_count [OF ch] show ?thesis by (auto intro: order_trans)
  next
    case True
    then obtain h where h: "r = Handle h" by blast
    from change_Handle [OF ch [unfolded h]] have hv: "h = writeUInt32BE (handleCount st)"
      and lt: "handleCount st < 4294967296" and c1: "handleCount st1 = Suc (handleCount st)"
      by blast+
    from hv lt have rd: "readUInt32BE h = handleCount st"
      by (simp add: read_write_UInt32BE)
    have len: "length h = 4" using hv by (simp add: length_writeUInt32BE)
    have iss: "issued rs = h # issued rs1" by (simp add: rs h)
    from ih1 c1 have gt: "\<forall>g \<in> set (issued rs1). handleCount st < readUInt32BE g"
      by auto
    show ?thesis
      unfolding iss using rd len ih1 ih2 gt c1 by auto
  qed
qed

text \<open>
  C8. The handles that a session hands out, in the order of the replies, are four bytes
  long and their values as big-endian numbers increase strictly; so no handle is handed
  out twice, also after a close.
\<close>

theorem handles_strictly_increase:
  "sorted_wrt (<) (map readUInt32BE (issued (fst (serve config init_session evs))))
   \<and> distinct (issued (fst (serve config init_session evs)))
   \<and> list_all (\<lambda>h. length h = 4) (issued (fst (serve config init_session evs)))"
proof -
  obtain rs st' where sv: "serve config init_session evs = (rs, st')"
    by (cases "serve config init_session evs")
  from serve_issued [OF sv] have a: "\<forall>h \<in> set (issued rs). length h = 4"
    and b: "sorted_wrt (<) (map readUInt32BE (issued rs))"
    by blast+
  from b have "distinct (map readUInt32BE (issued rs))"
    by (simp add: strict_sorted_iff)
  then have "distinct (issued rs)"
    by (simp add: distinct_map)
  with a b sv show ?thesis
    by (simp add: list_all_iff)
qed

theorem handles_strictly_increase_witness:
  "issued (fst (serve demo_config init_session
      [(demo_os, OPEN ''/loans.csv'' 1), (fst demo_opened, CLOSE [0, 0, 0, 0]),
       (fst demo_closed, OPENDIR ''/'')])) = [[0, 0, 0, 0], [0, 0, 0, 1]]
   \<and> sorted_wrt (<) (map readUInt32BE (issued (fst (serve demo_config init_session
      [(demo_os, OPEN ''/loans.csv'' 1), (fst demo_opened, CLOSE [0, 0, 0, 0]),
       (fst demo_closed, OPENDIR ''/'')]))))"
proof -
  have c: "demo_closed = (demo_os, \<lparr>openFiles = Map.empty, openDirs = Map.empty, handleCount = 1\<rparr>)"
    unfolding demo_closed_def
    by (simp add: demo_opened_eq CLOSE_handler_def handleKey_zero fs_close_def demo_os_def)
  have d: "fst (OPENDIR_handler demo_config (fst demo_closed) (snd demo_closed) ''/'') = Handle [0, 0, 0, 1]"
    by (simp add: c OPENDIR_handler_def demo_config_def
      normalizePath_def path_resolve_def normalizeString_def fs_readdir_def lookup_inode_def
      demo_os_def createHandle_def writeUInt32BE_def js_incr_def)
  have "issued (fst (serve demo_config init_session
      [(demo_os, OPEN ''/loans.csv'' 1), (fst demo_opened, CLOSE [0, 0, 0, 0]),
       (fst demo_closed, OPENDIR ''/'')])) = [[0, 0, 0, 0], [0, 0, 0, 1]]"
    by (simp add: demo_OPEN demo_CLOSE d case_prod_unfold)
  with handles_strictly_increase [of demo_config
      "[(demo_os, OPEN ''/loans.csv'' 1), (fst demo_opened, CLOSE [0, 0, 0, 0]),
        (fst demo_closed, OPENDIR ''/'')]"]
  show ?thesis by simp
qed

text \<open>
  C10. A \<open>CLOSE\<close> of a known file handle leaves the session without the entry of the
  handle whatever \<open>fs.close\<close> answers: the reply is the failure status when closing
  the descriptor fails and OK otherwise, and in both cases a second \<open>CLOSE\<close> of the
  same handle is answered with the failure status.
\<close>

theorem close_invalidates_first:
  assumes "serve config init_session evs = (rs, st)"
    and "openFiles st (handleKey h) = Some fd"
  shows "snd (snd (CLOSE_handler s st h)) = st\<lparr>openFiles := (openFiles st)(handleKey h := None)\<rparr>
    \<and> fst (CLOSE_handler s st h)
        = (case fst (fs_close s fd) of Inl err \<Rightarrow> Status FAILURE | Inr u \<Rightarrow> Status OK)
    \<and> fst (CLOSE_handler s' (snd (snd (CLOSE_handler s st h))) h) = Status FAILURE"
proof -
  from serve_inv [OF assms(1) init_session_inv] have inv: "session_inv st" .
  with assms(2) have nd: "openDirs st (handleKey h) = None"
    unfolding session_inv_def by (metis option.distinct(1))
  obtain rc s1 where c: "fs_close s fd = (rc, s1)" by (cases "fs_close s fd")
  have 1: "snd (snd (CLOSE_handler s st h)) = st\<lparr>openFiles := (openFiles st)(handleKey h := None)\<rparr>"
    using assms(2) c by (cases rc) (simp_all add: CLOSE_handler_def)
  have 2: "fst (CLOSE_handler s st h)
        = (case fst (fs_close s fd) of Inl err \<Rightarrow> Status FAILURE | Inr u \<Rightarrow> Status OK)"
    using assms(2) c by (cases rc) (simp_all add: CLOSE_handler_def)
  have 3: "fst (CLOSE_handler s' (st\<lparr>openFiles := (openFiles st)(handleKey h := None)\<rparr>) h) = Status FAILURE"
    using nd by (simp add: CLOSE_handler_def)
  from 1 2 3 show ?thesis by simp
qed

theorem close_invalidates_first_witness:
  "fst (CLOSE_handler demo_os (snd demo_opened) [0, 0, 0, 0]) = Status FAILURE
   \<and> openFiles (snd (snd (CLOSE_handler demo_os (snd demo_opened) [0, 0, 0, 0]))) ''00000000'' = None
   \<and> fst (CLOSE_handler demo_os (snd (snd (CLOSE_handler demo_os (snd demo_opened) [0, 0, 0, 0])))
        [0, 0, 0, 0]) = Status FAILURE"
proof -
  have o: "openFiles (snd demo_opened) (handleKey [0, 0, 0, 0]) = Some 0"
    by (simp add: demo_opened_eq handleKey_zero)
  have f: "fst (fs_close demo_os 0) = Inl FsError"
    by (simp add: fs_close_def demo_os_def)
  note t = close_invalidates_first [OF demo_serve_open o, of demo_os demo_os]
  from t have "fst (CLOSE_handler demo_os (snd demo_opened) [0, 0, 0, 0])
      = (case fst (fs_close demo_os 0) of Inl err \<Rightarrow> Status FAILURE | Inr u \<Rightarrow> Status OK)"
    by blast
  with f have 1: "fst (CLOSE_handler demo_os (snd demo_opened) [0, 0, 0, 0]) = Status FAILURE"
    by simp
  from t have "snd (snd (CLOSE_handler demo_os (snd demo_opened) [0, 0, 0, 0]))
      = (snd demo_opened)\<lparr>openFiles := (openFiles (snd demo_opened))(handleKey [0, 0, 0, 0] := None)\<rparr>"
    by blast
  then have 2: "openFiles (snd (snd (CLOSE_handler demo_os (snd demo_opened) [0, 0, 0, 0]))) ''00000000'' = None"
    by (simp add: handleKey_zero)
  from t have 3: "fst (CLOSE_handler demo_os (snd (snd (CLOSE_handler demo_os (snd demo_opened) [0, 0, 0, 0])))
        [0, 0, 0, 0]) = Status FAILURE"
    by blast
  from 1 2 3 show ?thesis by blast
qed

subsection \<open>Starting the server once\<close>

lemma lifecycle_invI:
  assumes "\<And>p c. p < length (promises m) \<Longrightarrow> promises m ! p = Pending c \<Longrightarrow> startingPromise m = Some p"
    and "\<And>p srv. p < length (promises m) \<Longrightarrow> promises m ! p = Fulfilled srv \<Longrightarrow> srv < length (servers m)"
    and "servers m \<noteq> [] \<Longrightarrow> length (servers m) = 1
          \<and> (\<exists>p. startingPromise m = Some p \<and> p < length (promises m) \<and> promises m ! p = Fulfilled 0)"
    and "\<And>p. startingPromise m = Some p \<Longrightarrow> p < length (promises m)"
    and "\<And>srv. serverInstance m = Some srv \<Longrightarrow> srv < length (servers m)"
  shows "lifecycle_inv m"
  unfolding lifecycle_inv_def using assms by blast

lemma inv_pending:
  "lifecycle_inv m \<Longrightarrow> p < length (promises m) \<Longrightarrow> promises m ! p = Pending c \<Longrightarrow> startingPromise m = Some p"
  unfolding lifecycle_inv_def by blast

lemma inv_fulfilled:
  "lifecycle_inv m \<Longrightarrow> p < length (promises m) \<Longrightarrow> promises m ! p = Fulfilled srv \<Longrightarrow> srv < length (servers m)"
  unfolding lifecycle_inv_def by blast

lemma inv_servers:
  "lifecycle_inv m \<Longrightarrow> servers m \<noteq> [] \<Longrightarrow> length (servers m) = 1
     \<and> (\<exists>p. startingPromise m = Some p \<and> p < length (promises m) \<and> promises m ! p = Fulfilled 0)"
  unfolding lifecycle_inv_def by blast

lemma inv_starting:
  "lifecycle_inv m \<Longrightarrow> startingPromise m = Some p \<Longrightarrow> p < length (promises m)"
  unfolding lifecycle_inv_def by blast

lemma inv_instance:
  "lifecycle_inv m \<Longrightarrow> serverInstance m = Some srv \<Longrightarrow> srv < length (servers m)"
  unfolding lifecycle_inv_def by blast

lemma inv_length_servers: "lifecycle_inv m \<Longrightarrow> length (servers m) \<le> 1"
  using inv_servers [of m] by (cases "servers m = []") simp_all

lemma init_lifecycle_inv: "lifecycle_inv init_lifecycle"
  by (rule lifecycle_invI) (simp_all add: init_lifecycle_def)

lemma call_inv:
  assumes "lifecycle_inv m" "startMockSftpServer d m ov = (r, m')"
  shows "lifecycle_inv m'"
proof (cases "serverInstance m")
  case (Some srv)
  with assms show ?thesis by (simp add: startMockSftpServer_def)
next
  case None
  show ?thesis
  proof (cases "startingPromise m")
    case (Some p)
    with None assms show ?thesis by (simp add: startMockSftpServer_def)
  next
    case sp: None
    define n where "n = length (promises m)"
    from None sp assms(2) have m': "m' = m\<lparr>promises := promises m @ [Pending (merge_config d ov)],
        startingPromise := Some n\<rparr>"
      by (simp add: startMockSftpServer_def Let_def n_def)
    have nopending: "promises m ! p \<noteq> Pending c" if "p < n" for p c
      using inv_pending [OF assms(1), of p c] that sp by (auto simp: n_def)
    have noservers: "servers m = []"
      using inv_servers [OF assms(1)] sp by auto
    show ?thesis
    proof (rule lifecycle_invI)
      fix p c assume "p < length (promises m')" "promises m' ! p = Pending c"
      then show "startingPromise m' = Some p"
        using nopending [of p c] by (auto simp: m' nth_append n_def less_Suc_eq split: if_splits)
    next
      fix p srv assume "p < length (promises m')" "promises m' ! p = Fulfilled srv"
      then have "p < n" "promises m ! p = Fulfilled srv"
        by (auto simp: m' nth_append n_def less_Suc_eq split: if_splits)
      then show "srv < length (servers m')"
        using inv_fulfilled [OF assms(1), of p srv] by (simp add: m' n_def)
    next
      assume "servers m' \<noteq> []"
      with noservers show "length (servers m') = 1
          \<and> (\<exists>p. startingPromise m' = Some p \<and> p < length (promises m') \<and> promises m' ! p = Fulfilled 0)"
        by (simp add: m')
    next
      fix p assume "startingPromise m' = Some p"
      then show "p < length (promises m')" by (simp add: m' n_def)
    next
      fix srv assume "serverInstance m' = Some srv"
      with None show "srv < length (servers m')" by (simp add: m')
    qed
  qed
qed

lemma call_result:
  assumes "lifecycle_inv m" "startMockSftpServer d m ov = (ReturnsInstance srv, m')"
  shows "srv = 0"
proof (cases "serverInstance m")
  case None
  with assms(2) show ?thesis
    by (cases "startingPromise m") (simp_all add: startMockSftpServer_def Let_def)
next
  case (Some s)
  with assms(2) have "srv = s" by (simp add: startMockSftpServer_def)
  with Some inv_instance [OF assms(1)] inv_length_servers [OF assms(1)] show ?thesis by fastforce
qed

lemma body_done_inv:
  assumes "lifecycle_inv m"
  shows "lifecycle_inv (body_done m p env)"
proof (cases "p < length (promises m)")
  case False
  with assms show ?thesis by (simp add: body_done_def)
next
  case lt: True
  show ?thesis
  proof (cases "promises m ! p")
    case (Fulfilled srv)
    with lt assms show ?thesis by (simp add: body_done_def)
  next
    case (Rejected e)
    with lt assms show ?thesis by (simp add: body_done_def)
  next
    case (Pending c)
    have sp: "startingPromise m = Some p"
      using inv_pending [OF assms lt Pending] .
    have noservers: "servers m = []"
    proof (rule ccontr)
      assume "servers m \<noteq> []"
      from inv_servers [OF assms this] sp have "promises m ! p = Fulfilled 0" by auto
      with Pending show False by simp
    qed
    have only: "q = p" if "q < length (promises m)" "promises m ! q = Pending c'" for q c'
      using inv_pending [OF assms that] sp by simp
    have si: "serverInstance m = None"
    proof (cases "serverInstance m")
      case (Some srv)
      from inv_instance [OF assms Some] noservers show ?thesis by simp
    qed simp
    have noful: "promises m ! q \<noteq> Fulfilled srv" if "q < length (promises m)" for q srv
      using inv_fulfilled [OF assms that, of srv] noservers by auto
    show ?thesis
    proof (cases "start_body env")
      case (Inl e)
      define m' where "m' = m\<lparr>promises := (promises m)[p := Rejected e], startingPromise := None\<rparr>"
      from Inl lt Pending have eq: "body_done m p env = m'"
        by (simp add: body_done_def m'_def)
      have "lifecycle_inv m'"
      proof (rule lifecycle_invI)
        fix q c' assume "q < length (promises m')" "promises m' ! q = Pending c'"
        then show "startingPromise m' = Some q"
          using only [of q c'] lt by (auto simp: m'_def nth_list_update split: if_splits)
      next
        fix q srv assume "q < length (promises m')" "promises m' ! q = Fulfilled srv"
        then show "srv < length (servers m')"
          using noful [of q srv] lt by (auto simp: m'_def nth_list_update split: if_splits)
      next
        assume "servers m' \<noteq> []"
        with noservers show "length (servers m') = 1
          \<and> (\<exists>p. startingPromise m' = Some p \<and> p < length (promises m') \<and> promises m' ! p = Fulfilled 0)"
          by (simp add: m'_def)
      next
        fix q assume "startingPromise m' = Some q"
        then show "q < length (promises m')" by (simp add: m'_def)
      next
        fix srv assume "serverInstance m' = Some srv"
        with si show "srv < length (servers m')" by (simp add: m'_def)
      qed
      with eq show ?thesis by simp
    next
      case (Inr key)
      define m' where "m' = m\<lparr>promises := (promises m)[p := Fulfilled 0],
              servers := [\<lparr>hostKey = key, server_config = c, listen_status = Binding\<rparr>]\<rparr>"
      from Inr lt Pending noservers have eq: "body_done m p env = m'"
        by (simp add: body_done_def m'_def)
      have "lifecycle_inv m'"
      proof (rule lifecycle_invI)
        fix q c' assume "q < length (promises m')" "promises m' ! q = Pending c'"
        then show "startingPromise m' = Some q"
          using only [of q c'] lt by (auto simp: m'_def nth_list_update split: if_splits)
      next
        fix q srv assume "q < length (promises m')" "promises m' ! q = Fulfilled srv"
        then show "srv < length (servers m')"
          using noful [of q srv] lt by (auto simp: m'_def nth_list_update split: if_splits)
      next
        assume "servers m' \<noteq> []"
        have "startingPromise m' = Some p \<and> p < length (promises m') \<and> promises m' ! p = Fulfilled 0"
          using sp lt by (simp add: m'_def)
        then show "length (servers m') = 1
          \<and> (\<exists>p. startingPromise m' = Some p \<and> p < length (promises m') \<and> promises m' ! p = Fulfilled 0)"
          by (auto simp: m'_def)
      next
        fix q assume "startingPromise m' = Some q"
        then show "q < length (promises m')" using sp lt by (simp add: m'_def)
      next
        fix srv assume "serverInstance m' = Some srv"
        with si show "srv < length (servers m')" by (simp add: m'_def)
      qed
      with eq show ?thesis by simp
    qed
  qed
qed

lemma on_listening_inv:
  assumes "lifecycle_inv m"
  shows "lifecycle_inv (on_listening m srv)"
proof (cases "srv < length (servers m) \<and> listen_status (servers m ! srv) = Binding")
  case False
  with assms show ?thesis by (auto simp: on_listening_def)
next
  case True
  define m' where "m' = m\<lparr>servers := (servers m)[srv := (servers m ! srv)\<lparr>listen_status := Bound\<rparr>],
             serverInstance := Some srv\<rparr>"
  from True have eq: "on_listening m srv = m'"
    by (simp add: on_listening_def m'_def)
  have p: "promises m' = promises m" "startingPromise m' = startingPromise m"
    "length (servers m') = length (servers m)" "serverInstance m' = Some srv"
    by (simp_all add: m'_def)
  have ne: "servers m \<noteq> []" using True by auto
  have "lifecycle_inv m'"
  proof (rule lifecycle_invI)
    fix q c' assume "q < length (promises m')" "promises m' ! q = Pending c'"
    then show "startingPromise m' = Some q"
      using inv_pending [OF assms, of q c'] by (simp add: p)
  next
    fix q s assume "q < length (promises m')" "promises m' ! q = Fulfilled s"
    then show "s < length (servers m')"
      using inv_fulfilled [OF assms, of q s] by (simp add: p)
  next
    assume "servers m' \<noteq> []"
    from inv_servers [OF assms ne] show "length (servers m') = 1
          \<and> (\<exists>p. startingPromise m' = Some p \<and> p < length (promises m') \<and> promises m' ! p = Fulfilled 0)"
      by (simp add: p)
  next
    fix q assume "startingPromise m' = Some q"
    then show "q < length (promises m')"
      using inv_starting [OF assms, of q] by (simp add: p)
  next
    fix s assume "serverInstance m' = Some s"
    then show "s < length (servers m')" using True by (simp add: p)
  qed
  with eq show ?thesis by simp
qed

lemma on_error_inv:
  assumes "lifecycle_inv m"
  shows "lifecycle_inv (on_error m srv)"
proof (cases "srv < length (servers m) \<and> listen_status (servers m ! srv) = Binding")
  case False
  with assms show ?thesis by (auto simp: on_error_def)
next
  case True
  define m' where "m' = m\<lparr>servers := (servers m)[srv := (servers m ! srv)\<lparr>listen_status := BindFailed\<rparr>]\<rparr>"
  from True have eq: "on_error m srv = m'"
    by (simp add: on_error_def m'_def)
  have p: "promises m' = promises m" "startingPromise m' = startingPromise m"
    "length (servers m') = length (servers m)" "serverInstance m' = serverInstance m"
    by (simp_all add: m'_def)
  have ne: "servers m \<noteq> []" using True by auto
  have "lifecycle_inv m'"
  proof (rule lifecycle_invI)
    fix q c' assume "q < length (promises m')" "promises m' ! q = Pending c'"
    then show "startingPromise m' = Some q"
      using inv_pending [OF assms, of q c'] by (simp add: p)
  next
    fix q s assume "q < length (promises m')" "promises m' ! q = Fulfilled s"
    then show "s < length (servers m')"
      using inv_fulfilled [OF assms, of q s] by (simp add: p)
  next
    assume "servers m' \<noteq> []"
    from inv_servers [OF assms ne] show "length (servers m') = 1
          \<and> (\<exists>p. startingPromise m' = Some p \<and> p < length (promises m') \<and> promises m' ! p = Fulfilled 0)"
      by (simp add: p)
  next
    fix q assume "startingPromise m' = Some q"
    then show "q < length (promises m')"
      using inv_starting [OF assms, of q] by (simp add: p)
  next
    fix s assume "serverInstance m' = Some s"
    then show "s < length (servers m')"
      using inv_instance [OF assms, of s] by (simp add: p)
  qed
  with eq show ?thesis by simp
qed

lemma call_servers: "startMockSftpServer d m ov = (r, m') \<Longrightarrow> servers m' = servers m"
  by (auto simp: startMockSftpServer_def Let_def split: option.splits)

lemma body_done_servers: "length (servers m) \<le> length (servers (body_done m p env))"
  by (auto simp: body_done_def split: promise_state.splits sum.splits)

lemma on_listening_servers: "length (servers (on_listening m srv)) = length (servers m)"
  by (simp add: on_listening_def)

lemma on_error_servers: "length (servers (on_error m srv)) = length (servers m)"
  by (simp add: on_error_def)

lemma run_events_inv:
  assumes "\<forall>e \<in> set evs. \<not> is_Closed e" "lifecycle_inv m" "run_events d m evs = (rs, m')"
  shows "lifecycle_inv m' \<and> length (servers m) \<le> length (servers m')
    \<and> (\<forall>srv. ReturnsInstance srv \<in> set rs \<longrightarrow> srv = 0 \<and> servers m' \<noteq> [])"
  using assms
proof (induction evs arbitrary: m rs)
  case Nil
  then show ?case by simp
next
  case (Cons e evs)
  from Cons.prems(1) have rest: "\<forall>e \<in> set evs. \<not> is_Closed e" and e: "\<not> is_Closed e"
    by simp_all
  show ?case
  proof (cases e)
    case (Call ov)
    obtain r m1 where c: "startMockSftpServer d m ov = (r, m1)"
      by (cases "startMockSftpServer d m ov")
    from Cons.prems(3) Call c obtain rs1 where r: "run_events d m1 evs = (rs1, m')"
      and rs: "rs = r # rs1"
      by (auto split: prod.splits)
    have inv1: "lifecycle_inv m1" using Cons.prems(2) c by (rule call_inv)
    from Cons.IH [OF rest inv1 r] have ih: "lifecycle_inv m'" "length (servers m1) \<le> length (servers m')"
      "\<forall>srv. ReturnsInstance srv \<in> set rs1 \<longrightarrow> srv = 0 \<and> servers m' \<noteq> []"
      by blast+
    have hd: "srv = 0 \<and> servers m' \<noteq> []" if "r = ReturnsInstance srv" for srv
    proof -
      from that c call_result [OF Cons.prems(2)] have z: "srv = 0" by blast
      from that c have "serverInstance m = Some srv"
        by (auto simp: startMockSftpServer_def Let_def split: option.splits)
      from inv_instance [OF Cons.prems(2) this] have "servers m \<noteq> []" by auto
      with call_servers [OF c] ih(2) have "servers m' \<noteq> []" by auto
      with z show ?thesis by simp
    qed
    from ih hd call_servers [OF c] show ?thesis
      unfolding rs by auto
  next
    case (BodyDone p env)
    with Cons.prems(3) have r: "run_events d (body_done m p env) evs = (rs, m')" by simp
    from Cons.IH [OF rest body_done_inv [OF Cons.prems(2)] r] body_done_servers [of m p env]
    show ?thesis by auto
  next
    case (Listening srv)
    with Cons.prems(3) have r: "run_events d (on_listening m srv) evs = (rs, m')" by simp
    from Cons.IH [OF rest on_listening_inv [OF Cons.prems(2)] r] on_listening_servers [of m srv]
    show ?thesis by auto
  next
    case (ListenError srv)
    with Cons.prems(3) have r: "run_events d (on_error m srv) evs = (rs, m')" by simp
    from Cons.IH [OF rest on_error_inv [OF Cons.prems(2)] r] on_error_servers [of m srv]
    show ?thesis by auto
  next
    case (Closed srv)
    with e show ?thesis by simp
  qed
qed

lemma length_bound_servers: "length (bound_servers m) \<le> length (servers m)"
  unfolding bound_servers_def using length_filter_le [of _ "[0 ..< length (servers m)]"] by simp

text \<open>
  C7. For every sequence of calls of \<open>startMockSftpServer\<close>, interleaved in any way
  with the ends of the start bodies and with the \<open>listen\<close> callbacks and errors (no
  server is closed in between): \<open>listen\<close> is called on at most one server and at
  most one server is bound; every call whose result is known stands for that one
  server; a call that arrives while a start is in flight returns the promise of that
  start and changes nothing; a call that arrives when the server is running returns the
  instance and changes nothing.
\<close>

theorem single_listener:
  assumes "\<forall>e \<in> set evs. \<not> is_Closed e"
    and "run_events d init_lifecycle evs = (rs, m)"
  shows "length (servers m) \<le> 1 \<and> length (bound_servers m) \<le> 1
    \<and> (\<forall>r \<in> set rs. \<forall>srv. resolved m r = Some srv \<longrightarrow> srv = 0 \<and> length (servers m) = 1)
    \<and> (\<forall>ov p. serverInstance m = None \<and> startingPromise m = Some p
          \<longrightarrow> startMockSftpServer d m ov = (ReturnsPromise p, m))
    \<and> (\<forall>ov srv. serverInstance m = Some srv
          \<longrightarrow> startMockSftpServer d m ov = (ReturnsInstance srv, m))"
proof -
  from run_events_inv [OF assms(1) init_lifecycle_inv assms(2)]
  have inv: "lifecycle_inv m"
    and inst: "\<forall>srv. ReturnsInstance srv \<in> set rs \<longrightarrow> srv = 0 \<and> servers m \<noteq> []"
    by blast+
  have le: "length (servers m) \<le> 1" using inv by (rule inv_length_servers)
  have b: "length (bound_servers m) \<le> 1"
    using length_bound_servers [of m] le by simp
  have res: "srv = 0 \<and> length (servers m) = 1" if "r \<in> set rs" "resolved m r = Some srv" for r srv
  proof (cases r)
    case (ReturnsInstance s)
    with that inst have "srv = 0" "servers m \<noteq> []" by (auto simp: resolved_def)
    with le show ?thesis by (cases "servers m") auto
  next
    case (ReturnsPromise p)
    with that(2) have "p < length (promises m)" "promises m ! p = Fulfilled srv"
      by (auto simp: resolved_def split: if_splits promise_state.splits)
    from inv_fulfilled [OF inv this] le show ?thesis by auto
  qed
  have c1: "startMockSftpServer d m ov = (ReturnsPromise p, m)"
    if "serverInstance m = None \<and> startingPromise m = Some p" for ov p
    using that by (simp add: startMockSftpServer_def)
  have c2: "startMockSftpServer d m ov = (ReturnsInstance srv, m)"
    if "serverInstance m = Some srv" for ov srv
    using that by (simp add: startMockSftpServer_def)
  from le b res c1 c2 show ?thesis by blast
qed

theorem single_listener_witness:
  "fst (run_events demo_config init_lifecycle demo_events)
     = [ReturnsPromise 0, ReturnsPromise 0, ReturnsPromise 0, ReturnsInstance 0]
   \<and> bound_servers (snd (run_events demo_config init_lifecycle demo_events)) = [0]
   \<and> length (servers (snd (run_events demo_config init_lifecycle demo_events))) \<le> 1
   \<and> length (bound_servers (snd (run_events demo_config init_lifecycle demo_events))) \<le> 1"
proof -
  have no: "\<forall>e \<in> set demo_events. \<not> is_Closed e"
    by (simp add: demo_events_def)
  have run: "run_events demo_config init_lifecycle demo_events
      = (fst (run_events demo_config init_lifecycle demo_events),
         snd (run_events demo_config init_lifecycle demo_events))"
    by simp
  from single_listener [OF no run]
  have a: "length (servers (snd (run_events demo_config init_lifecycle demo_events))) \<le> 1"
    and b: "length (bound_servers (snd (run_events demo_config init_lifecycle demo_events))) \<le> 1"
    by blast+
  have c: "run_events demo_config init_lifecycle demo_events
      = ([ReturnsPromise 0, ReturnsPromise 0, ReturnsPromise 0, ReturnsInstance 0],
         \<lparr>serverInstance = Some 0, startingPromise = Some 0, promises = [Fulfilled 0],
          servers = [\<lparr>hostKey = [1, 2, 3], server_config = demo_config, listen_status = Bound\<rparr>]\<rparr>)"
    by (simp add: demo_events_def startMockSftpServer_def init_lifecycle_def merge_config_def
        no_overrides_def demo_config_def body_done_def start_body_def ensureHostKey_def
        demo_unreadable_env_def on_listening_def)
  have d: "bound_servers (snd (run_events demo_config init_lifecycle demo_events)) = [0]"
    by (simp add: c bound_servers_def)
  from a b c d show ?thesis by simp
qed

end
